theory Spec2Isabelle
  imports Main "HOL-Library.Sublist" "HOL-Library.Char_ord" "HOL-Library.List_Lexorder"
begin

section \<open>Python values used by both scripts\<close>

text \<open>
  Python integers are unbounded, so they are \<open>int\<close>; \<open>//\<close> is floor division, which is
  \<open>div\<close> on \<open>int\<close>, except that Python raises on a zero divisor. Strings are \<open>string\<close>
  (ASCII text). Every exception the two scripts can raise is a value of \<open>error\<close>.
\<close>

datatype error =
  ValueError | KeyError | IndexError | TypeError
  | AssertionError | ZeroDivisionError | FileNotFoundError

text \<open>\<open>f'{n}'\<close> for a non-negative and for an arbitrary integer.\<close>

fun str_nat :: "nat \<Rightarrow> string" where
  "str_nat n =
     (if n < 10 then [''0123456789'' ! n]
      else str_nat (n div 10) @ [''0123456789'' ! (n mod 10)])"

declare str_nat.simps [simp del]

definition str :: "int \<Rightarrow> string" where
  "str i = (if i < 0 then CHR ''-'' # str_nat (nat (- i)) else str_nat (nat i))"

text \<open>\<open>sep.join(xs)\<close>.\<close>

fun join :: "string \<Rightarrow> string list \<Rightarrow> string" where
  "join sep [] = []"
| "join sep [x] = x"
| "join sep (x # y # ys) = x @ sep @ join sep (y # ys)"

text \<open>
  Slices \<open>xs[:n]\<close> and \<open>xs[n:]\<close>: a negative bound counts from the end, and every bound is
  clamped to the list.
\<close>

definition slice_index :: "'a list \<Rightarrow> int \<Rightarrow> nat" where
  "slice_index xs n = (if n < 0 then nat (int (length xs) + n) else min (nat n) (length xs))"

definition slice_to :: "'a list \<Rightarrow> int \<Rightarrow> 'a list" where
  "slice_to xs n = take (slice_index xs n) xs"

definition slice_from :: "'a list \<Rightarrow> int \<Rightarrow> 'a list" where
  "slice_from xs n = drop (slice_index xs n) xs"

text \<open>\<open>xs * k\<close> on a list: no copy at all for \<open>k \<le> 0\<close>.\<close>

definition list_times :: "'a list \<Rightarrow> int \<Rightarrow> 'a list" where
  "list_times xs k = concat (replicate (nat k) xs)"

text \<open>\<open>' '.join([f"{i + 1}. {word}" for i, word in enumerate(word_list)])\<close>.\<close>

definition numbered :: "string list \<Rightarrow> string" where
  "numbered word_list =
     join '' '' (map (\<lambda>(i, word). str (int i + 1) @ ''. '' @ word) (enumerate 0 word_list))"

text \<open>
  \<open>' '.join(s.replace('\n', ' ').replace('\t', ' ').strip().split())\<close>, on ASCII text: the
  whitespace of \<open>strip\<close> and \<open>split\<close> is tab, line feed, vertical tab, form feed,
  carriage return, the four separators 0x1C to 0x1F and the space.
\<close>

definition isspace :: "char \<Rightarrow> bool" where
  "isspace c \<longleftrightarrow>
     c \<in> set [CHR 0x09, CHR 0x0A, CHR 0x0B, CHR 0x0C, CHR 0x0D,
               CHR 0x1C, CHR 0x1D, CHR 0x1E, CHR 0x1F, CHR 0x20]"

definition replace_char :: "char \<Rightarrow> char \<Rightarrow> string \<Rightarrow> string" where
  "replace_char old new s = map (\<lambda>c. if c = old then new else c) s"

definition strip :: "string \<Rightarrow> string" where
  "strip s = rev (dropWhile isspace (rev (dropWhile isspace s)))"

fun split_ws :: "string \<Rightarrow> string \<Rightarrow> string list" where
  "split_ws cur [] = (if cur = [] then [] else [cur])"
| "split_ws cur (c # cs) =
     (if isspace c then (if cur = [] then split_ws [] cs else cur # split_ws [] cs)
      else split_ws (cur @ [c]) cs)"

definition split :: "string \<Rightarrow> string list" where
  "split s = split_ws [] s"

definition collapse_whitespace :: "string \<Rightarrow> string" where
  "collapse_whitespace s =
     join '' '' (split (strip (replace_char (CHR 0x09) CHR '' '' (replace_char (CHR 0x0A) CHR '' '' s))))"

section \<open>The generator: \<open>ruler/data/synthetic/common_words_extraction.py\<close>\<close>

subsection \<open>What the script is given\<close>

text \<open>
  The parsed command line (\<open>args\<close>), restricted to the options the generation reads.
\<close>

record args =
  max_seq_length :: int
  tokens_to_generate :: int
  num_samples :: int
  random_seed :: int
  context_template :: string
  query_template :: string
  remove_newline_tab :: bool
  freq_cw :: int
  freq_ucw :: int
  num_cw :: int

text \<open>
  What the script takes from outside its own file, as parameters: the tokenizer chosen by
  \<open>select_tokenizer\<close> (text to token ids; only the length is used), Python's \<open>random\<close>
  module (the state of the global generator after \<open>random.seed(seed)\<close>, a draw of
  \<open>random.sample\<close> from a state, and the shuffle of the fresh generator
  \<open>random.Random(seed)\<close>), and \<open>str.format\<close> with the one keyword \<open>context\<close>, which raises
  on a template with any other field. \<open>'r\<close> is the type of generator states.
\<close>

record 'r externals =
  text_to_tokens :: "string \<Rightarrow> nat list"
  seed_state :: "int \<Rightarrow> 'r"
  draw_sample :: "'r \<Rightarrow> string list \<Rightarrow> nat \<Rightarrow> string list \<times> 'r"
  Random_shuffle :: "int \<Rightarrow> string list \<Rightarrow> string list"
  format_context :: "string \<Rightarrow> string \<Rightarrow> error + string"

text \<open>
  \<open>random.sample(population, k)\<close>: a \<open>ValueError\<close>, before anything is drawn, when \<open>k\<close> is
  negative or larger than the population.
\<close>

definition random_sample ::
  "'r externals \<Rightarrow> 'r \<Rightarrow> string list \<Rightarrow> int \<Rightarrow> (error + string list) \<times> 'r" where
  "random_sample E r population k =
     (if 0 \<le> k \<and> k \<le> int (length population)
      then (Inr (fst (draw_sample E r population (nat k))),
            snd (draw_sample E r population (nat k)))
      else (Inl ValueError, r))"

text \<open>
  Lines 77 to 79: the word pool is the sorted list of the distinct corpus words, shuffled by
  a fresh generator on the seed. \<open>enum\<close> is \<open>list(set(words))\<close>: the distinct words in the
  order the set happens to enumerate them.
\<close>

definition words_pool :: "'r externals \<Rightarrow> args \<Rightarrow> string list \<Rightarrow> string list" where
  "words_pool E A enum = Random_shuffle E (random_seed A) (sort enum)"

subsection \<open>\<open>get_example\<close> and \<open>generate_input_output\<close>\<close>

definition get_example ::
  "'r externals \<Rightarrow> args \<Rightarrow> string list \<Rightarrow> 'r \<Rightarrow> int \<Rightarrow> int \<Rightarrow> int \<Rightarrow> int
     \<Rightarrow> (error + string \<times> string list) \<times> 'r" where
  "get_example E A words r num_words common_repeats uncommon_repeats common_nums =
     (case random_sample E r words num_words of
        (Inl e, r') \<Rightarrow> (Inl e, r')
      | (Inr word_list_full, r') \<Rightarrow>
          (let common = slice_to word_list_full common_nums;
               uncommon = slice_from word_list_full common_nums;
               word_list = Random_shuffle E (random_seed A)
                 (list_times common common_repeats @ list_times uncommon uncommon_repeats)
           in (Inr (numbered word_list, common), r')))"

text \<open>The two \<open>get_example\<close> calls of either branch of \<open>generate_input_output\<close>, in order.\<close>

definition get_examples ::
  "'r externals \<Rightarrow> args \<Rightarrow> string list \<Rightarrow> 'r \<Rightarrow> int \<times> int \<times> int \<Rightarrow> int \<times> int \<times> int
     \<Rightarrow> (error + (string \<times> string list) \<times> (string \<times> string list)) \<times> 'r" where
  "get_examples E A words r shot sample =
     (case shot of (n1, c1, u1) \<Rightarrow>
      case sample of (n2, c2, u2) \<Rightarrow>
      case get_example E A words r n1 c1 u1 (num_cw A) of
        (Inl e, r1) \<Rightarrow> (Inl e, r1)
      | (Inr example, r1) \<Rightarrow>
          (case get_example E A words r1 n2 c2 u2 (num_cw A) of
             (Inl e, r2) \<Rightarrow> (Inl e, r2)
           | (Inr drawn, r2) \<Rightarrow> (Inr (example, drawn), r2)))"

definition generate_input_output ::
  "'r externals \<Rightarrow> args \<Rightarrow> string list \<Rightarrow> 'r \<Rightarrow> int
     \<Rightarrow> (error + string \<times> string \<times> string list) \<times> 'r" where
  "generate_input_output E A words r num_words =
     (case (if max_seq_length A < 4096
            then get_examples E A words r (20, 3, 1) (num_words, 6, 1)
            else get_examples E A words r (40, 10, 3) (num_words, freq_cw A, freq_ucw A)) of
        (Inl e, r') \<Rightarrow> (Inl e, r')
      | (Inr ((context_example, answer_example), (context, answer)), r') \<Rightarrow>
          (case format_context E (context_template A) context_example of
             Inl e \<Rightarrow> (Inl e, r')
           | Inr shot \<Rightarrow>
               (case format_context E (context_template A) context of
                  Inl e \<Rightarrow> (Inl e, r')
                | Inr input_context \<Rightarrow>
                    (Inr ((shot @ query_template A @ numbered answer_example)
                            @ [CHR 0x0A] @ input_context,
                          query_template A, answer), r'))))"

subsection \<open>\<open>sys_word_pair_random\<close>\<close>

text \<open>What the function prints: one progress line per calibration trial, then the count.\<close>

datatype printed = Progress int int int | Num_words int

text \<open>
  Lines 120 to 140, the search for \<open>num_words\<close>. The loop state is \<open>num_words\<close>,
  \<open>total_tokens\<close>, the generator state and the lines printed so far. An exception of a
  trial is not caught here and ends the run. The loop need not end (a non-positive
  \<open>incremental\<close>), so a run that never returns is \<open>None\<close>.
\<close>

partial_function (option) find_num_words ::
  "'r externals \<Rightarrow> args \<Rightarrow> string list \<Rightarrow> int \<Rightarrow> int \<Rightarrow> int \<Rightarrow> int \<Rightarrow> 'r \<Rightarrow> printed list
     \<Rightarrow> ((error + int) \<times> 'r \<times> printed list) option" where
  "find_num_words E A words max_seq_len incremental num_words total_tokens r out =
     (if total_tokens + tokens_to_generate A < max_seq_len then
        (case generate_input_output E A words r num_words of
           (Inl e, r') \<Rightarrow> Some (Inl e, r', out)
         | (Inr (context, query, answer), r') \<Rightarrow>
             (let total = int (length (text_to_tokens E
                                (context @ query @ '' '' @ numbered answer)));
                  out' = out @ [Progress max_seq_len (total + tokens_to_generate A) num_words]
              in if total + tokens_to_generate A > max_seq_len
                 then Some (Inr (num_words - incremental), r', out')
                 else if num_words + incremental > int (length words)
                 then Some (Inr (int (length words)), r', out')
                 else find_num_words E A words max_seq_len incremental
                        (num_words + incremental) total r' out'))
      else Some (Inr num_words, r, out))"

declare find_num_words.simps [code]

text \<open>
  Lines 149 to 151, the body of the \<open>try\<close>: one attempt at \<open>used_words\<close> items. It
  raises what \<open>generate_input_output\<close> raises, and an \<open>AssertionError\<close> when the measured
  length plus \<open>tokens_to_generate\<close> is above \<open>max_seq_length\<close>.
\<close>

definition sample_attempt ::
  "'r externals \<Rightarrow> args \<Rightarrow> string list \<Rightarrow> int \<Rightarrow> 'r \<Rightarrow> int
     \<Rightarrow> (error + string \<times> string \<times> string list \<times> int) \<times> 'r" where
  "sample_attempt E A words max_seq_len r used_words =
     (case generate_input_output E A words r used_words of
        (Inl e, r') \<Rightarrow> (Inl e, r')
      | (Inr (context, query, answer), r') \<Rightarrow>
          (let len = int (length (text_to_tokens E (context @ query))) + tokens_to_generate A
           in if len \<le> max_seq_len then (Inr (context, query, answer, len), r')
              else (Inl AssertionError, r')))"

text \<open>
  Lines 153 to 155, the body of the bare \<open>except\<close>: \<open>used_words\<close> goes down by
  \<open>incremental\<close> only while it is above \<open>incremental\<close>.
\<close>

definition shrink :: "int \<Rightarrow> int \<Rightarrow> int" where
  "shrink incremental used_words =
     (if used_words > incremental then used_words - incremental else used_words)"

text \<open>
  Lines 147 to 155, the \<open>while True\<close> of one sample. The bare \<open>except\<close> catches the
  failed assertion and every exception of the attempt alike, and the loop goes round again;
  nothing is ever raised out of it. So the loop either returns the example that fitted, or
  never returns (\<open>None\<close>).
\<close>

partial_function (option) sample_retry ::
  "'r externals \<Rightarrow> args \<Rightarrow> string list \<Rightarrow> int \<Rightarrow> int \<Rightarrow> int \<Rightarrow> 'r
     \<Rightarrow> ((string \<times> string \<times> string list \<times> int) \<times> 'r) option" where
  "sample_retry E A words max_seq_len incremental used_words r =
     (case sample_attempt E A words max_seq_len r used_words of
        (Inr s, r') \<Rightarrow> Some (s, r')
      | (Inl e, r') \<Rightarrow>
          sample_retry E A words max_seq_len incremental (shrink incremental used_words) r')"

declare sample_retry.simps [code]

text \<open>
  One round of that loop that did not return: from \<open>used_words\<close> and the generator state
  before an attempt to the two before the next attempt.
\<close>

definition retry_step ::
  "'r externals \<Rightarrow> args \<Rightarrow> string list \<Rightarrow> int \<Rightarrow> int \<Rightarrow> int \<times> 'r \<Rightarrow> int \<times> 'r" where
  "retry_step E A words max_seq_len incremental =
     (\<lambda>(used_words, r).
        (shrink incremental used_words, snd (sample_attempt E A words max_seq_len r used_words)))"

text \<open>
  The attempt the loop makes in round \<open>k\<close> (counted from 0), if it gets that far, when it is
  entered with \<open>used_words\<close> and the generator state \<open>r\<close>.
\<close>

definition nth_attempt ::
  "'r externals \<Rightarrow> args \<Rightarrow> string list \<Rightarrow> int \<Rightarrow> int \<Rightarrow> int \<Rightarrow> 'r \<Rightarrow> nat
     \<Rightarrow> (error + string \<times> string \<times> string list \<times> int) \<times> 'r" where
  "nth_attempt E A words max_seq_len incremental used_words r k =
     (case (retry_step E A words max_seq_len incremental ^^ k) (used_words, r) of
        (used_words_k, r_k) \<Rightarrow> sample_attempt E A words max_seq_len r_k used_words_k)"

text \<open>One record of the dataset (the dictionary \<open>formatted_output\<close>).\<close>

record example =
  index :: int
  input_context :: string
  input_query :: string
  outputs :: "string list"
  length_field :: int

definition tidy :: "args \<Rightarrow> string \<Rightarrow> string" where
  "tidy A s = (if remove_newline_tab A then collapse_whitespace s else s)"

definition formatted_output :: "args \<Rightarrow> int \<Rightarrow> string \<times> string \<times> string list \<times> int \<Rightarrow> example" where
  "formatted_output A i s =
     (case s of (context, query, answer, len) \<Rightarrow>
        \<lparr>index = i, input_context = tidy A context, input_query = tidy A query,
         outputs = answer, length_field = len\<rparr>)"

text \<open>Lines 145 to 168: the loop over \<open>range(num_samples)\<close>, appending to \<open>write_jsons\<close>.\<close>

fun samples_loop ::
  "'r externals \<Rightarrow> args \<Rightarrow> string list \<Rightarrow> int \<Rightarrow> int \<Rightarrow> int \<Rightarrow> int list \<Rightarrow> 'r \<Rightarrow> example list
     \<Rightarrow> (example list \<times> 'r) option" where
  "samples_loop E A words max_seq_len incremental num_words [] r write_jsons =
     Some (write_jsons, r)"
| "samples_loop E A words max_seq_len incremental num_words (i # rest) r write_jsons =
     (case sample_retry E A words max_seq_len incremental num_words r of
        None \<Rightarrow> None
      | Some (s, r') \<Rightarrow>
          samples_loop E A words max_seq_len incremental num_words rest r'
            (write_jsons @ [formatted_output A i s]))"

definition sys_word_pair_random ::
  "'r externals \<Rightarrow> args \<Rightarrow> string list \<Rightarrow> int \<Rightarrow> int \<Rightarrow> int \<Rightarrow> 'r
     \<Rightarrow> ((error + example list) \<times> 'r \<times> printed list) option" where
  "sys_word_pair_random E A words n_samples max_seq_len incremental r =
     (case find_num_words E A words max_seq_len incremental incremental 0 r [] of
        None \<Rightarrow> None
      | Some (Inl e, r', out) \<Rightarrow> Some (Inl e, r', out)
      | Some (Inr num_words, r', out) \<Rightarrow>
          (case samples_loop E A words max_seq_len incremental num_words
                  [0 .. n_samples - 1] r' [] of
             None \<Rightarrow> None
           | Some (write_jsons, r'') \<Rightarrow>
               Some (Inr write_jsons, r'', out @ [Num_words num_words])))"

text \<open>
  The script as a whole: \<open>random.seed\<close>, the word pool, and \<open>main\<close>, which calls
  \<open>sys_word_pair_random\<close> with the default \<open>incremental = 10\<close> and hands the records to
  \<open>write_jsonl\<close>. The result is the dataset written (or the exception), with what was
  printed.
\<close>

definition main_generate ::
  "'r externals \<Rightarrow> args \<Rightarrow> string list \<Rightarrow> ((error + example list) \<times> printed list) option" where
  "main_generate E A enum =
     map_option (\<lambda>(res, r, out). (res, out))
       (sys_word_pair_random E A (words_pool E A enum) (num_samples A) (max_seq_length A) 10
          (seed_state E (random_seed A)))"

section \<open>The orchestrator: \<open>run_babilong.py\<close>\<close>

subsection \<open>What the script is given\<close>

definition SPLIT_NAMES :: "string list" where
  "SPLIT_NAMES = [''16k'', ''32k'', ''64k'', ''128k'']"

text \<open>
  The parsed command line of \<open>define_cmd_arguments\<close>. \<open>main\<close> is called with these values
  as its parameters of the same names, so the same record stands for them.
\<close>

record cmd_arguments =
  model_name :: string
  model_path :: string
  prompt_config :: string
  attn_type :: string
  block_size :: int
  anchor_block_size :: int
  seq_lengths :: "int list"
  tasks :: "string list"
  pregen_data_dir :: "string option"
  num_nodes :: int
  nproc_per_node :: "int option"
  output_dir :: string

text \<open>
  What the script does to the world: it creates directories, writes command files and runs
  shell commands, in this order; what it prints is kept apart.
\<close>

datatype effect = Makedirs string | Write_file string string | System string

text \<open>
  What the script takes from outside: its own directory \<open>BASE_DIR\<close>, the table
  \<open>PROMPT_TEMPLATES\<close> of the module \<open>babilong\<close> (here the \<open>stop_words\<close> entry of a
  configuration, \<open>None\<close> for a name the table lacks), and \<open>os.path.exists\<close>, whose answer may
  depend on everything done so far.
\<close>

record world =
  BASE_DIR :: string
  PROMPT_TEMPLATES :: "string \<Rightarrow> string list option"
  os_path_exists :: "effect list \<Rightarrow> string \<Rightarrow> bool"

text \<open>\<open>os.path.join\<close> of two POSIX paths; with three, the call is nested to the left.\<close>

definition os_path_join :: "string \<Rightarrow> string \<Rightarrow> string" where
  "os_path_join a b =
     (if (case b of [] \<Rightarrow> False | c # _ \<Rightarrow> c = CHR ''/'') then b
      else if a = [] \<or> last a = CHR ''/'' then a @ b
      else a @ ''/'' @ b)"

subsection \<open>\<open>submit_job\<close>\<close>

definition submit_job :: "world \<Rightarrow> string \<Rightarrow> string \<Rightarrow> string \<Rightarrow> effect list" where
  "submit_job Wd cmd log_dir filename =
     [Makedirs log_dir,
      Write_file (os_path_join log_dir filename) cmd,
      System (''cd '' @ BASE_DIR Wd @ ''; '' @ cmd)]"

subsection \<open>\<open>main\<close>\<close>

definition seq_length_repr :: "int \<Rightarrow> string" where
  "seq_length_repr seq_length = str (seq_length div 1024) @ ''k''"

text \<open>Line 115: the test that skips a sequence length.\<close>

definition skipped :: "cmd_arguments \<Rightarrow> int \<Rightarrow> bool" where
  "skipped a seq_length \<longleftrightarrow>
     sublist ''star'' (attn_type a) \<and> block_size a + anchor_block_size a > seq_length"

definition skip_message :: "cmd_arguments \<Rightarrow> int \<Rightarrow> string" where
  "skip_message a seq_length =
     ''block_size + anchor_block_size ('' @ str (block_size a + anchor_block_size a) @ '') ''
     @ ''must be less than or equal to seq_length ('' @ str seq_length @ ''). ''
     @ ''Skipping...''"

text \<open>
  Line 125. The quotient is evaluated first, so a zero \<open>block_size\<close> raises before \<open>min\<close>
  can fail on a missing \<open>nproc_per_node\<close>.
\<close>

definition nproc_per_node_seq_len :: "int option \<Rightarrow> int \<Rightarrow> int \<Rightarrow> error + int" where
  "nproc_per_node_seq_len nproc seq_length blk =
     (if blk = 0 then Inl ZeroDivisionError
      else case nproc of
             None \<Rightarrow> Inl TypeError
           | Some n \<Rightarrow> Inr (min n (seq_length div blk)))"

text \<open>Lines 124 to 128.\<close>

definition inference_executor :: "cmd_arguments \<Rightarrow> int \<Rightarrow> error + string" where
  "inference_executor a seq_length =
     (if attn_type a \<noteq> ''dense'' then
        (case nproc_per_node_seq_len (nproc_per_node a) seq_length (block_size a) of
           Inl e \<Rightarrow> Inl e
         | Inr n \<Rightarrow>
             Inr (''torchrun --nnodes='' @ str (num_nodes a) @ '' --nproc_per_node='' @ str n))
      else Inr ''python'')"

definition results_dir :: "cmd_arguments \<Rightarrow> int \<Rightarrow> string" where
  "results_dir a seq_length = os_path_join (output_dir a) (seq_length_repr seq_length)"

definition log_dir :: "cmd_arguments \<Rightarrow> int \<Rightarrow> string" where
  "log_dir a seq_length = os_path_join (results_dir a seq_length) ''logs''"

definition data_dir :: "cmd_arguments \<Rightarrow> int \<Rightarrow> string" where
  "data_dir a seq_length = os_path_join (results_dir a seq_length) ''data''"

definition task_log_dir :: "cmd_arguments \<Rightarrow> int \<Rightarrow> string \<Rightarrow> string" where
  "task_log_dir a seq_length task = os_path_join (log_dir a seq_length) task"

text \<open>Lines 147 to 154.\<close>

definition data_gen_cmd :: "world \<Rightarrow> cmd_arguments \<Rightarrow> int \<Rightarrow> string \<Rightarrow> string" where
  "data_gen_cmd Wd a seq_length task =
     ''python babilong/prepare_data.py ''
     @ ''--download_dir '' @ os_path_join (os_path_join (BASE_DIR Wd) ''dataset'') ''babilong''
     @ '' ''
     @ ''--output_dir '' @ data_dir a seq_length @ '' ''
     @ ''--tasks '' @ task @ '' ''
     @ ''--split_names '' @ seq_length_repr seq_length @ '' ''
     @ ''--model_template_type '' @ prompt_config a @ '' ''"

text \<open>Lines 159 to 169. Nothing stands between the \<open>.jsonl\<close> and the next flag.\<close>

definition task_gen_cmd ::
  "cmd_arguments \<Rightarrow> string \<Rightarrow> string \<Rightarrow> int \<Rightarrow> string \<Rightarrow> string \<Rightarrow> string" where
  "task_gen_cmd a executor task_data_file seq_length task stop_words =
     executor @ '' run_star_attn_inference.py ''
     @ ''--model_path '' @ model_path a @ '' ''
     @ ''--attn_type '' @ attn_type a @ '' ''
     @ ''--block_size '' @ str (block_size a) @ '' ''
     @ ''--anchor_block_size '' @ str (anchor_block_size a) @ '' ''
     @ ''--tokens_to_generate 128 ''
     @ ''--input_path '' @ task_data_file @ '' ''
     @ ''--output_path '' @ os_path_join (results_dir a seq_length) task @ ''.jsonl''
     @ ''--stop_words '' @ stop_words"

text \<open>
  Lines 141 to 145: the pre-generated file of a task, when a directory of pre-generated data
  was given (\<open>pregen\<close> is that directory, already joined to \<open>BASE_DIR\<close>).
\<close>

definition pregen_file :: "string option \<Rightarrow> int \<Rightarrow> string \<Rightarrow> string option" where
  "pregen_file pregen seq_length task =
     (case pregen of
        None \<Rightarrow> None
      | Some d \<Rightarrow>
          if d = [] then None
          else Some (os_path_join (os_path_join d (seq_length_repr seq_length))
                       (task @ ''_'' @ seq_length_repr seq_length @ ''.jsonl'')))"

text \<open>
  Lines 138 to 170, the body of the loop over the tasks: the data generation job when the
  pre-generated file is not there, then the inference job.
\<close>

definition evaluate_task ::
  "world \<Rightarrow> cmd_arguments \<Rightarrow> string option \<Rightarrow> string \<Rightarrow> string \<Rightarrow> int \<Rightarrow> string
     \<Rightarrow> effect list \<Rightarrow> effect list" where
  "evaluate_task Wd a pregen stop_words executor seq_length task fx =
     (let generated = os_path_join (data_dir a seq_length)
                        (task @ ''_'' @ seq_length_repr seq_length @ ''.jsonl'');
          generate = fx @ submit_job Wd (data_gen_cmd Wd a seq_length task)
                            (task_log_dir a seq_length task) ''data_generation.sh'';
          prepared =
            (case pregen_file pregen seq_length task of
               None \<Rightarrow> (generate, generated)
             | Some f \<Rightarrow> if os_path_exists Wd fx f then (fx, f) else (generate, generated))
      in fst prepared
         @ submit_job Wd
             (task_gen_cmd a executor (snd prepared) seq_length task stop_words)
             (task_log_dir a seq_length task) ''generate_predictions.sh'')"

fun tasks_loop ::
  "world \<Rightarrow> cmd_arguments \<Rightarrow> string option \<Rightarrow> string \<Rightarrow> string \<Rightarrow> int \<Rightarrow> string list
     \<Rightarrow> effect list \<Rightarrow> effect list" where
  "tasks_loop Wd a pregen stop_words executor seq_length [] fx = fx"
| "tasks_loop Wd a pregen stop_words executor seq_length (task # rest) fx =
     tasks_loop Wd a pregen stop_words executor seq_length rest
       (evaluate_task Wd a pregen stop_words executor seq_length task fx)"

text \<open>
  Lines 114 to 170, the body of the loop over the sequence lengths, on what was printed and
  done so far. An exception ends the run.
\<close>

definition schedule_seq_length ::
  "world \<Rightarrow> cmd_arguments \<Rightarrow> string option \<Rightarrow> string \<Rightarrow> int \<Rightarrow> string list \<times> effect list
     \<Rightarrow> error option \<times> string list \<times> effect list" where
  "schedule_seq_length Wd a pregen stop_words seq_length st =
     (case st of (out, fx) \<Rightarrow>
        if skipped a seq_length then (None, out @ [skip_message a seq_length], fx)
        else
          (case inference_executor a seq_length of
             Inl e \<Rightarrow> (Some e, out, fx)
           | Inr executor \<Rightarrow>
               (None, out,
                tasks_loop Wd a pregen stop_words executor seq_length (tasks a)
                  (fx @ [Makedirs (log_dir a seq_length), Makedirs (data_dir a seq_length)]))))"

fun seq_lengths_loop ::
  "world \<Rightarrow> cmd_arguments \<Rightarrow> string option \<Rightarrow> string \<Rightarrow> int list \<Rightarrow> string list \<times> effect list
     \<Rightarrow> error option \<times> string list \<times> effect list" where
  "seq_lengths_loop Wd a pregen stop_words [] st = (None, st)"
| "seq_lengths_loop Wd a pregen stop_words (seq_length # rest) st =
     (case schedule_seq_length Wd a pregen stop_words seq_length st of
        (Some e, st') \<Rightarrow> (Some e, st')
      | (None, st') \<Rightarrow> seq_lengths_loop Wd a pregen stop_words rest st')"

definition main ::
  "world \<Rightarrow> cmd_arguments \<Rightarrow> string list \<times> effect list
     \<Rightarrow> error option \<times> string list \<times> effect list" where
  "main Wd a st =
     (if sublist ''star'' (attn_type a) \<and> \<not> block_size a \<ge> anchor_block_size a
      then (Some AssertionError, st)
      else
        (let pregen = map_option (os_path_join (os_path_join (BASE_DIR Wd) ''dataset''))
                        (pregen_data_dir a)
         in case PROMPT_TEMPLATES Wd (prompt_config a) of
              None \<Rightarrow> (Some KeyError, st)
            | Some stop_words \<Rightarrow>
                seq_lengths_loop Wd a pregen (join '','' stop_words) (seq_lengths a) st))"

subsection \<open>The script: validation, then \<open>main\<close>\<close>

text \<open>Lines 196 to 203: the suffix of the model name in the output directory.\<close>

definition size_repr :: "int \<Rightarrow> string" where
  "size_repr n = (if n < 1024 then str n else str (n div 1024) @ ''k'')"

definition model_name_suffix :: "cmd_arguments \<Rightarrow> string" where
  "model_name_suffix a =
     (if sublist ''star'' (attn_type a) then
        ''_b'' @ size_repr (block_size a) @ ''a''
        @ size_repr (if anchor_block_size a > 0 then anchor_block_size a else block_size a)
      else [])"

text \<open>Line 203: the arguments \<open>main\<close> is called with.\<close>

definition main_arguments :: "cmd_arguments \<Rightarrow> cmd_arguments" where
  "main_arguments a =
     a\<lparr>output_dir :=
         os_path_join (output_dir a) (model_name a @ ''_'' @ attn_type a @ model_name_suffix a)\<rparr>"

text \<open>
  Lines 174 to 217. Every check is made before \<open>main\<close> is called, on a world in which
  nothing has been printed or done.
\<close>

definition script :: "world \<Rightarrow> cmd_arguments \<Rightarrow> error option \<times> string list \<times> effect list" where
  "script Wd a =
     (if \<not> list_all (\<lambda>seq_length. seq_length_repr seq_length \<in> set SPLIT_NAMES) (seq_lengths a)
      then (Some AssertionError, [], [])
      else if sublist ''star'' (attn_type a) \<and> \<not> block_size a > 0
      then (Some AssertionError, [], [])
      else if attn_type a \<noteq> ''dense''
              \<and> \<not> (case nproc_per_node a of None \<Rightarrow> False | Some n \<Rightarrow> n > 0)
      then (Some AssertionError, [], [])
      else if attn_type a \<noteq> ''dense'' \<and> \<not> num_nodes a > 0
      then (Some AssertionError, [], [])
      else if \<not> os_path_exists Wd [] (model_path a)
      then (Some FileNotFoundError, [], [])
      else main Wd (main_arguments a) ([], []))"

subsection \<open>What a command file of a run holds\<close>

text \<open>
  \<open>job_record\<close> says that the file \<open>p\<close> with the text \<open>cmd\<close> is the command file of one of the
  two jobs of \<open>task\<close> at \<open>seq_length\<close>: the data generation, or the inference, whose command is
  built with the executor of that sequence length and is also run (in \<open>fx\<close>).
\<close>

definition job_record ::
  "world \<Rightarrow> cmd_arguments \<Rightarrow> string \<Rightarrow> int \<Rightarrow> string \<Rightarrow> effect list \<Rightarrow> string \<Rightarrow> string
     \<Rightarrow> bool" where
  "job_record Wd a stop_words seq_length task fx p cmd \<longleftrightarrow>
     (p = os_path_join (task_log_dir a seq_length task) ''data_generation.sh''
        \<and> cmd = data_gen_cmd Wd a seq_length task)
     \<or> (\<exists>executor input_path.
           inference_executor a seq_length = Inr executor
           \<and> p = os_path_join (task_log_dir a seq_length task) ''generate_predictions.sh''
           \<and> cmd = task_gen_cmd a executor input_path seq_length task stop_words
           \<and> System (''cd '' @ BASE_DIR Wd @ ''; '' @ cmd) \<in> set fx)"

text \<open>
  Lines 125 to 132, read as a relation: some trial of the search at \<open>j\<close> items, from some
  generator state, measured \<open>cur\<close> tokens with the reserved \<open>tokens_to_generate\<close> added. This
  is what a printed line \<open>Progress max cur j\<close> reports.
\<close>

definition trial_measured :: "'r externals \<Rightarrow> args \<Rightarrow> string list \<Rightarrow> int \<Rightarrow> int \<Rightarrow> bool" where
  "trial_measured E A W cur j \<longleftrightarrow>
     (\<exists>r0 r1 c q a. generate_input_output E A W r0 j = (Inr (c, q, a), r1) \<and>
        cur = int (length (text_to_tokens E (c @ q @ '' '' @ numbered a)))
              + tokens_to_generate A)"

section \<open>Concrete runs\<close>

subsection \<open>A generator run\<close>

text \<open>
  The numbered items of \<open>numbered\<close> with the counter as an integer: the same list, in the
  form in which a concrete list is evaluated.
\<close>

fun number_from :: "int \<Rightarrow> string list \<Rightarrow> string list" where
  "number_from k [] = []"
| "number_from k (w # ws) = (str k @ ''. '' @ w) # number_from (k + 1) ws"

text \<open>
  A small instance of what the generator is given: a tokenizer with one token per
  character, a generator whose state counts the draws and whose sample is the first \<open>k\<close>
  words of the population rotated by the state, a shuffle that reverses, and \<open>str.format\<close>
  on the one template \<open>{context}\<close>. The corpus has twenty one-letter words; \<open>W0\<close> is the
  word pool made of it.
\<close>

definition E0 :: "nat externals" where
  "E0 = \<lparr>text_to_tokens = map of_char,
         seed_state = (\<lambda>seed. 0),
         draw_sample = (\<lambda>r population k.
           (take k (drop (r mod length population) population
                    @ take (r mod length population) population), Suc r)),
         Random_shuffle = (\<lambda>seed xs. rev xs),
         format_context =
           (\<lambda>template c. if template = ''{context}'' then Inr c else Inl KeyError)\<rparr>"

definition corpus0 :: "string list" where
  "corpus0 = [''a'', ''b'', ''c'', ''d'', ''e'', ''f'', ''g'', ''h'', ''i'', ''j'',
              ''k'', ''l'', ''m'', ''n'', ''o'', ''p'', ''q'', ''r'', ''s'', ''t'']"

definition W0 :: "string list" where
  "W0 = [''t'', ''s'', ''r'', ''q'', ''p'', ''o'', ''n'', ''m'', ''l'', ''k'',
         ''j'', ''i'', ''h'', ''g'', ''f'', ''e'', ''d'', ''c'', ''b'', ''a'']"

definition A0 :: args where
  "A0 = \<lparr>max_seq_length = 400, tokens_to_generate = 30, num_samples = 1, random_seed = 42,
         context_template = ''{context}'', query_template = '' Q: '',
         remove_newline_tab = False, freq_cw = 30, freq_ucw = 3, num_cw = 2\<rparr>"

text \<open>The one record of the dataset of this run.\<close>

definition example0 :: example where
  "example0 = \<lparr>index = 0,
     input_context = ''1. q 2. r 3. s 4. t 5. a 6. b 7. c 8. d 9. e 10. f 11. g 12. h 13. i 14. j 15. k 16. l 17. m 18. n 19. o 20. p 21. o 22. p 23. o 24. p Q: 1. p 2. o'' @ [CHR 0x0A] @ ''1. p 2. q 3. r 4. s 5. t 6. a 7. b 8. c 9. d 10. e 11. f 12. g 13. h 14. i 15. j 16. k 17. l 18. m 19. n 20. o 21. n 22. o 23. n 24. o 25. n 26. o 27. n 28. o 29. n 30. o'',
     input_query = '' Q: '', outputs = [''o'', ''n''], length_field = 352\<rparr>"

subsection \<open>An orchestrator run\<close>

text \<open>
  A world with the repository at \<open>/repo\<close>, one prompt configuration, and the model as the
  only path that exists; and a star attention sweep of one sequence length and one task.
\<close>

definition Wd0 :: world where
  "Wd0 = \<lparr>BASE_DIR = ''/repo'',
          PROMPT_TEMPLATES = (\<lambda>c. if c = ''llama'' then Some [''</s>''] else None),
          os_path_exists = (\<lambda>fx p. p = ''/models/llama'')\<rparr>"

definition star_args :: cmd_arguments where
  "star_args = \<lparr>model_name = ''llama'', model_path = ''/models/llama'', prompt_config = ''llama'',
     attn_type = ''star'', block_size = 4096, anchor_block_size = 4096,
     seq_lengths = [16384], tasks = [''qa1''], pregen_data_dir = None,
     num_nodes = 1, nproc_per_node = Some 8, output_dir = ''/repo/results''\<rparr>"

text \<open>
  The command file of the inference job of that sweep and its text; a star attention sweep
  whose two blocks do not fit its first sequence length; and a sweep whose anchor block is
  larger than its block.
\<close>

definition star_record :: string where
  "star_record = ''/repo/results/llama_star_b4ka4k/16k/logs/qa1/generate_predictions.sh''"

definition star_cmd :: string where
  "star_cmd = ''torchrun --nnodes=1 --nproc_per_node=4 run_star_attn_inference.py --model_path /models/llama --attn_type star --block_size 4096 --anchor_block_size 4096 --tokens_to_generate 128 --input_path /repo/results/llama_star_b4ka4k/16k/data/qa1_16k.jsonl --output_path /repo/results/llama_star_b4ka4k/16k/qa1.jsonl--stop_words </s>''"

definition star_wide_args :: cmd_arguments where
  "star_wide_args = star_args\<lparr>block_size := 16384, anchor_block_size := 16384,
                              seq_lengths := [16384, 32768]\<rparr>"

definition star_bad_anchor_args :: cmd_arguments where
  "star_bad_anchor_args = star_args\<lparr>anchor_block_size := 8192\<rparr>"

text \<open>The same block sizes with dense attention.\<close>

definition dense_wide_args :: cmd_arguments where
  "dense_wide_args = star_args\<lparr>attn_type := ''dense'', block_size := 16384,
                               anchor_block_size := 16384\<rparr>"

section \<open>Properties of the generator\<close>

subsection \<open>The records of a run\<close>

lemma get_example_Inr:
  assumes "get_example E A W r n cr ur cn = (Inr (c, a), r')"
  shows "0 \<le> n \<and> n \<le> int (length W) \<and> r' = snd (draw_sample E r W (nat n)) \<and>
         a = slice_to (fst (draw_sample E r W (nat n))) cn \<and>
         c = numbered (Random_shuffle E (random_seed A)
               (list_times (slice_to (fst (draw_sample E r W (nat n))) cn) cr
                @ list_times (slice_from (fst (draw_sample E r W (nat n))) cn) ur))"
  using assms
  by (auto simp: get_example_def random_sample_def Let_def split: if_splits)

lemma get_examples_Inr:
  assumes "get_examples E A W r (n1, c1, u1) (n2, c2, u2) = (Inr (ex, (c, a)), r')"
  shows "\<exists>r1. get_example E A W r1 n2 c2 u2 (num_cw A) = (Inr (c, a), r')"
  using assms
  by (auto simp: get_examples_def split: prod.splits sum.splits)

lemma generate_input_output_Inr:
  assumes "generate_input_output E A W r n = (Inr (c, q, a), r')"
  shows "q = query_template A \<and>
         (\<exists>r1 shot body rendered.
            get_example E A W r1 n
              (if max_seq_length A < 4096 then 6 else freq_cw A)
              (if max_seq_length A < 4096 then 1 else freq_ucw A) (num_cw A)
              = (Inr (body, a), r') \<and>
            format_context E (context_template A) body = Inr rendered \<and>
            c = shot @ [CHR 0x0A] @ rendered)"
proof -
  have "q = query_template A \<and>
         (\<exists>r1 s1 s2 body rendered.
            get_example E A W r1 n
              (if max_seq_length A < 4096 then 6 else freq_cw A)
              (if max_seq_length A < 4096 then 1 else freq_ucw A) (num_cw A)
              = (Inr (body, a), r') \<and>
            format_context E (context_template A) body = Inr rendered \<and>
            c = (s1 @ query_template A @ numbered s2) @ [CHR 0x0A] @ rendered)"
  proof (cases "max_seq_length A < 4096")
    case True
    with assms show ?thesis
      apply (auto simp: generate_input_output_def split: prod.splits sum.splits
          dest!: get_examples_Inr)
      apply blast
      done
  next
    case False
    with assms show ?thesis
      apply (auto simp: generate_input_output_def split: prod.splits sum.splits
          dest!: get_examples_Inr)
      apply blast
      done
  qed
  then show ?thesis by blast
qed

lemma sample_attempt_Inr:
  assumes "sample_attempt E A W m r u = (Inr (c, q, a, len), r')"
  shows "generate_input_output E A W r u = (Inr (c, q, a), r') \<and>
         len = int (length (text_to_tokens E (c @ q))) + tokens_to_generate A \<and> len \<le> m"
  using assms
  by (auto simp: sample_attempt_def Let_def split: prod.splits sum.splits if_splits)

lemma sample_retry_sound:
  assumes "sample_retry E A W m inc u r = Some y"
  shows "\<exists>u0 r0. sample_attempt E A W m r0 u0 = (Inr (fst y), snd y)"
proof (rule sample_retry.raw_induct
    [where P = "\<lambda>E A W m inc u r y. \<exists>u0 r0. sample_attempt E A W m r0 u0 = (Inr (fst y), snd y)"])
  show "sample_retry E A W m inc u r = Some y" by (rule assms)
next
  fix f E A W m inc u r and y :: "(string \<times> string \<times> string list \<times> int) \<times> 'a"
  assume IH: "\<And>E A W m inc u r y. f E A W m inc u r = Some y \<Longrightarrow>
          \<exists>u0 r0. sample_attempt E A W m r0 u0 = (Inr (fst y), snd y)"
    and body: "(case sample_attempt E A W m r u of
          (Inr s, r') \<Rightarrow> Some (s, r')
        | (Inl e, r') \<Rightarrow> f E A W m inc (shrink inc u) r') = Some y"
  show "\<exists>u0 r0. sample_attempt E A W m r0 u0 = (Inr (fst y), snd y)"
  proof (cases "sample_attempt E A W m r u")
    case (Pair res r1)
    show ?thesis
    proof (cases res)
      case (Inl e)
      with Pair body have "f E A W m inc (shrink inc u) r1 = Some y" by simp
      then show ?thesis by (rule IH)
    next
      case (Inr s)
      with Pair body have "y = (s, r1)" by simp
      with Pair Inr show ?thesis by auto
    qed
  qed
qed

lemma samples_loop_records:
  assumes "samples_loop E A W m inc nw idx r js0 = Some (js, r')" and "ex \<in> set js"
  shows "ex \<in> set js0 \<or>
         (\<exists>i s u0 r0 r1. ex = formatted_output A i s \<and> sample_attempt E A W m r0 u0 = (Inr s, r1))"
  using assms
proof (induction idx arbitrary: r js0)
  case Nil
  then show ?case by simp
next
  case (Cons i rest)
  from Cons.prems(1) obtain s r1 where
    ret: "sample_retry E A W m inc nw r = Some (s, r1)" and
    rest: "samples_loop E A W m inc nw rest r1 (js0 @ [formatted_output A i s]) = Some (js, r')"
    by (auto split: option.splits)
  from sample_retry_sound [OF ret] obtain u0 r0 where
    att: "sample_attempt E A W m r0 u0 = (Inr s, r1)" by auto
  from Cons.IH [OF rest Cons.prems(2)] show ?case
  proof
    assume "ex \<in> set (js0 @ [formatted_output A i s])"
    then consider "ex \<in> set js0" | "ex = formatted_output A i s" by auto
    then show ?case
    proof cases
      case 1
      then show ?thesis by simp
    next
      case 2
      with att show ?thesis by blast
    qed
  next
    assume "\<exists>i s u0 r0 r1. ex = formatted_output A i s
              \<and> sample_attempt E A W m r0 u0 = (Inr s, r1)"
    then show ?case by simp
  qed
qed

lemma sys_word_pair_random_records:
  assumes "sys_word_pair_random E A W n m inc r = Some (Inr js, r', out)" and "ex \<in> set js"
  shows "\<exists>i s u0 r0 r1. ex = formatted_output A i s \<and> sample_attempt E A W m r0 u0 = (Inr s, r1)"
proof -
  from assms(1) obtain nw r1 where
    "samples_loop E A W m inc nw [0 .. n - 1] r1 [] = Some (js, r')"
    by (auto simp: sys_word_pair_random_def split: option.splits sum.splits prod.splits)
  from samples_loop_records [OF this assms(2)] show ?thesis by simp
qed

lemma main_generate_records:
  assumes "main_generate E A enum = Some (Inr js, out)" and "ex \<in> set js"
  shows "\<exists>i s u0 r0 r1. ex = formatted_output A i s \<and>
           sample_attempt E A (words_pool E A enum) (max_seq_length A) r0 u0 = (Inr s, r1)"
proof -
  from assms(1) obtain r' where
    "sys_word_pair_random E A (words_pool E A enum) (num_samples A) (max_seq_length A) 10
       (seed_state E (random_seed A)) = Some (Inr js, r', out)"
    by (auto simp: main_generate_def)
  from sys_word_pair_random_records [OF this assms(2)] show ?thesis .
qed


lemma formatted_output_fields:
  "index (formatted_output A i (c, q, a, len)) = i"
  "input_context (formatted_output A i (c, q, a, len)) = tidy A c"
  "input_query (formatted_output A i (c, q, a, len)) = tidy A q"
  "outputs (formatted_output A i (c, q, a, len)) = a"
  "length_field (formatted_output A i (c, q, a, len)) = len"
  by (simp_all add: formatted_output_def)

text \<open>
  Claim C5. Every record of the dataset the generator writes satisfies the budget
  invariant: its recorded length is at most \<open>max_seq_length\<close>. The recorded length is the
  number of tokens of the context and the query as they were measured plus
  \<open>tokens_to_generate\<close>, so the measured prompt has at most
  \<open>max_seq_length - tokens_to_generate\<close> tokens. Without \<open>remove_newline_tab\<close> the context and
  the query measured are the ones of the record, and the bound is on the record's own
  fields. With \<open>remove_newline_tab\<close> the fields of the record are the measured texts tidied
  after the measurement (lines 157 to 159), and the length recorded is the one measured
  before.
\<close>

theorem example_length_within_budget:
  assumes "main_generate E A enum = Some (Inr js, out)" and "ex \<in> set js"
  shows "length_field ex \<le> max_seq_length A \<and>
         (\<exists>context query.
            input_context ex = tidy A context \<and> input_query ex = tidy A query \<and>
            length_field ex
              = int (length (text_to_tokens E (context @ query))) + tokens_to_generate A \<and>
            int (length (text_to_tokens E (context @ query)))
              \<le> max_seq_length A - tokens_to_generate A) \<and>
         (\<not> remove_newline_tab A \<longrightarrow>
            length_field ex
              = int (length (text_to_tokens E (input_context ex @ input_query ex)))
                + tokens_to_generate A \<and>
            int (length (text_to_tokens E (input_context ex @ input_query ex)))
              \<le> max_seq_length A - tokens_to_generate A)"
proof -
  from main_generate_records [OF assms] obtain i s u0 r0 r1 where
    ex: "ex = formatted_output A i s" and
    att: "sample_attempt E A (words_pool E A enum) (max_seq_length A) r0 u0 = (Inr s, r1)"
    by blast
  obtain c q a len where s: "s = (c, q, a, len)" by (cases s) auto
  from sample_attempt_Inr [OF att [unfolded s]]
  have len: "len = int (length (text_to_tokens E (c @ q))) + tokens_to_generate A"
    and le: "len \<le> max_seq_length A" by simp_all
  from len le have "int (length (text_to_tokens E (c @ q)))
      \<le> max_seq_length A - tokens_to_generate A" by simp
  with len le have measured: "length_field ex \<le> max_seq_length A \<and>
         (\<exists>context query.
            input_context ex = tidy A context \<and> input_query ex = tidy A query \<and>
            length_field ex
              = int (length (text_to_tokens E (context @ query))) + tokens_to_generate A \<and>
            int (length (text_to_tokens E (context @ query)))
              \<le> max_seq_length A - tokens_to_generate A)"
    unfolding ex s formatted_output_fields by blast
  from len le have own: "\<not> remove_newline_tab A \<longrightarrow>
            length_field ex
              = int (length (text_to_tokens E (input_context ex @ input_query ex)))
                + tokens_to_generate A \<and>
            int (length (text_to_tokens E (input_context ex @ input_query ex)))
              \<le> max_seq_length A - tokens_to_generate A"
    unfolding ex s formatted_output_fields by (simp add: tidy_def)
  from measured own show ?thesis by simp
qed

text \<open>
  Claim C7. The \<open>outputs\<close> of every record are exactly the common words of the sample its
  context was built from, in the order of the sample: the slice \<open>word_list_full[:num_cw]\<close>
  of the words drawn (the first \<open>num_cw\<close> of them when \<open>num_cw\<close> is not negative), while the
  context is the numbered rendering of the shuffled repetitions of the common and the other
  words of that same sample, after the one-shot example and a line feed.
\<close>

theorem outputs_are_common_words:
  assumes "main_generate E A enum = Some (Inr js, out)" and "ex \<in> set js"
  shows "\<exists>r0 k shot rendered.
           outputs ex = slice_to (fst (draw_sample E r0 (words_pool E A enum) k)) (num_cw A) \<and>
           format_context E (context_template A)
             (numbered (Random_shuffle E (random_seed A)
                (list_times (slice_to (fst (draw_sample E r0 (words_pool E A enum) k)) (num_cw A))
                   (if max_seq_length A < 4096 then 6 else freq_cw A)
                 @ list_times (slice_from (fst (draw_sample E r0 (words_pool E A enum) k)) (num_cw A))
                   (if max_seq_length A < 4096 then 1 else freq_ucw A))))
             = Inr rendered \<and>
           input_context ex = tidy A (shot @ [CHR 0x0A] @ rendered) \<and>
           (0 \<le> num_cw A \<longrightarrow>
              outputs ex = take (nat (num_cw A)) (fst (draw_sample E r0 (words_pool E A enum) k)))"
proof -
  from main_generate_records [OF assms] obtain i s u0 r0 r1 where
    ex: "ex = formatted_output A i s" and
    att: "sample_attempt E A (words_pool E A enum) (max_seq_length A) r0 u0 = (Inr s, r1)"
    by blast
  obtain c q a len where s: "s = (c, q, a, len)" by (cases s) auto
  from sample_attempt_Inr [OF att [unfolded s]]
  have gio: "generate_input_output E A (words_pool E A enum) r0 u0 = (Inr (c, q, a), r1)"
    by simp
  from generate_input_output_Inr [OF gio] obtain r2 shot body rendered where
    ge: "get_example E A (words_pool E A enum) r2 u0
           (if max_seq_length A < 4096 then 6 else freq_cw A)
           (if max_seq_length A < 4096 then 1 else freq_ucw A) (num_cw A) = (Inr (body, a), r1)"
    and fmt: "format_context E (context_template A) body = Inr rendered"
    and c: "c = shot @ [CHR 0x0A] @ rendered"
    by blast
  let ?wl = "fst (draw_sample E r2 (words_pool E A enum) (nat u0))"
  from get_example_Inr [OF ge]
  have a: "a = slice_to ?wl (num_cw A)"
    and body: "body = numbered (Random_shuffle E (random_seed A)
        (list_times (slice_to ?wl (num_cw A)) (if max_seq_length A < 4096 then 6 else freq_cw A)
         @ list_times (slice_from ?wl (num_cw A))
             (if max_seq_length A < 4096 then 1 else freq_ucw A)))"
    by simp_all
  have tk: "0 \<le> num_cw A \<longrightarrow> a = take (nat (num_cw A)) ?wl"
    by (auto simp: a slice_to_def slice_index_def min_def)
  show ?thesis
    unfolding ex s formatted_output_fields
    using a fmt [unfolded body] c tk by blast
qed

lemma sort_enum_unique:
  fixes e1 e2 :: "string list"
  assumes "distinct e1" "distinct e2" "set e1 = set e2"
  shows "sort e1 = sort e2"
  using assms by (intro sorted_distinct_set_unique) simp_all

text \<open>
  Claim C6. Two runs with the same parameters write the same dataset and print the same
  lines. The tokenizer and the seeded generators of \<open>random\<close> are functions here, so what is
  left to differ between two runs is the order in which \<open>set(words)\<close> enumerates the
  corpus; the word pool is sorted before it is shuffled, so the run does not depend on it.
\<close>

theorem generator_deterministic:
  assumes "distinct e1" and "distinct e2" and "set e1 = set e2"
  shows "main_generate E A e1 = main_generate E A e2"
  using sort_enum_unique [OF assms] by (simp add: main_generate_def words_pool_def)

subsection \<open>The parameters a run depends on\<close>

lemma find_num_words_cong_Some:
  assumes gio: "\<And>r n. generate_input_output E A1 W r n = generate_input_output E A2 W r n"
    and ttg: "tokens_to_generate A1 = tokens_to_generate A2"
    and run: "find_num_words E A1 W m inc n t r out = Some y"
  shows "find_num_words E A2 W m inc n t r out = Some y"
proof -
  have "E = E \<and> A1 = A1 \<and> W = W \<longrightarrow> find_num_words E A2 W m inc n t r out = Some y"
  proof (rule find_num_words.raw_induct
      [where P = "\<lambda>E' A' W' m inc n t r out y.
          E' = E \<and> A' = A1 \<and> W' = W \<longrightarrow> find_num_words E A2 W m inc n t r out = Some y",
        OF _ run])
    fix f and E' :: "'a externals" and A' W' m inc n t r out y
    assume IH: "\<And>E' A' W' m inc n t r out y. f E' A' W' m inc n t r out = Some y \<Longrightarrow>
        E' = E \<and> A' = A1 \<and> W' = W \<longrightarrow> find_num_words E A2 W m inc n t r out = Some y"
      and body: "(if t + tokens_to_generate A' < m then
        (case generate_input_output E' A' W' r n of
           (Inl e, r') \<Rightarrow> Some (Inl e, r', out)
         | (Inr (context, query, answer), r') \<Rightarrow>
             (let total = int (length (text_to_tokens E'
                                (context @ query @ '' '' @ numbered answer)));
                  out' = out @ [Progress m (total + tokens_to_generate A') n]
              in if total + tokens_to_generate A' > m
                 then Some (Inr (n - inc), r', out')
                 else if n + inc > int (length W')
                 then Some (Inr (int (length W')), r', out')
                 else f E' A' W' m inc (n + inc) total r' out'))
      else Some (Inr n, r, out)) = Some y"
    show "E' = E \<and> A' = A1 \<and> W' = W \<longrightarrow> find_num_words E A2 W m inc n t r out = Some y"
    proof (intro impI, elim conjE)
      assume eq: "E' = E" "A' = A1" "W' = W"
      have IH': "\<And>m inc n t r out y. f E A1 W m inc n t r out = Some y \<Longrightarrow>
          find_num_words E A2 W m inc n t r out = Some y"
        using IH by blast
      show "find_num_words E A2 W m inc n t r out = Some y"
        using body unfolding eq
        by (subst find_num_words.simps)
           (auto simp: gio ttg Let_def dest: IH' split: if_splits prod.splits sum.splits)
    qed
  qed
  then show ?thesis by simp
qed

lemma find_num_words_cong:
  assumes gio: "\<And>r n. generate_input_output E A1 W r n = generate_input_output E A2 W r n"
    and ttg: "tokens_to_generate A1 = tokens_to_generate A2"
  shows "find_num_words E A1 W m inc n t r out = find_num_words E A2 W m inc n t r out"
proof (cases "find_num_words E A1 W m inc n t r out")
  case (Some y)
  with find_num_words_cong_Some [OF gio ttg] show ?thesis by simp
next
  case None
  show ?thesis
  proof (cases "find_num_words E A2 W m inc n t r out")
    case (Some y)
    from find_num_words_cong_Some [OF gio [symmetric] ttg [symmetric] Some] None
    show ?thesis by simp
  next
    case None2: None
    with None show ?thesis by simp
  qed
qed







subsection \<open>The attempts of the loop of one sample\<close>

lemma shrink_mult:
  assumes "0 < inc"
  shows "shrink inc (inc * q) = inc * (if 1 < q then q - 1 else q)"
proof -
  have "inc < inc * q \<longleftrightarrow> 1 < q"
    using mult_less_cancel_left_pos [OF assms, of 1 q] by simp
  then show ?thesis by (simp add: shrink_def right_diff_distrib)
qed

lemma shrink_funpow_mult:
  assumes "0 < inc" and "1 \<le> q"
  shows "(shrink inc ^^ k) (inc * q) = inc * max 1 (q - int k)"
proof (induction k)
  case 0
  with assms show ?case by simp
next
  case (Suc k)
  have "(if 1 < max 1 (q - int k) then max 1 (q - int k) - 1 else max 1 (q - int k))
        = max 1 (q - int (Suc k))" by auto
  with Suc show ?case by (simp add: shrink_mult [OF assms(1)] del: of_nat_Suc)
qed

lemma shrink_funpow_floor:
  assumes "0 < inc" and "inc \<le> u" and "inc dvd u"
  shows "(shrink inc ^^ k) u = max inc (u - int k * inc)"
proof -
  from assms(3) obtain q where u: "u = inc * q" by (auto elim: dvdE)
  with assms(1,2) have "inc * 1 \<le> inc * q" by simp
  with assms(1) have q: "1 \<le> q" by (simp only: mult_le_cancel_left_pos)
  have "max inc (inc * q - int k * inc) = inc * max 1 (q - int k)"
  proof (cases "1 \<le> q - int k")
    case True
    with assms(1) have "inc * 1 \<le> inc * (q - int k)" by (simp only: mult_le_cancel_left_pos)
    with True show ?thesis by (simp add: right_diff_distrib max_def mult.commute)
  next
    case False
    then have "q - int k \<le> 1" by simp
    with assms(1) have "inc * (q - int k) \<le> inc * 1" by (simp only: mult_le_cancel_left_pos)
    with False show ?thesis by (simp add: right_diff_distrib max_def mult.commute)
  qed
  with shrink_funpow_mult [OF assms(1) q, of k] show ?thesis by (simp add: u)
qed

lemma retry_step_apply:
  "retry_step E A W m inc (u, r) = (shrink inc u, snd (sample_attempt E A W m r u))"
  by (simp add: retry_step_def)

lemma retry_step_fst:
  "fst ((retry_step E A W m inc ^^ k) (u, r)) = (shrink inc ^^ k) u"
proof (induction k)
  case 0
  show ?case by simp
next
  case (Suc k)
  obtain uk rk where st: "(retry_step E A W m inc ^^ k) (u, r) = (uk, rk)"
    by (cases "(retry_step E A W m inc ^^ k) (u, r)") auto
  with Suc show ?case by (simp add: retry_step_apply)
qed

lemma nth_attempt_0: "nth_attempt E A W m inc u r 0 = sample_attempt E A W m r u"
  by (simp add: nth_attempt_def)

lemma nth_attempt_Suc:
  "nth_attempt E A W m inc u r (Suc k)
   = nth_attempt E A W m inc (shrink inc u) (snd (sample_attempt E A W m r u)) k"
  by (simp add: nth_attempt_def funpow_swap1 retry_step_apply)

lemma sample_retry_first_fit_if:
  assumes "nth_attempt E A W m inc u r k = (Inr s, r')"
    and "\<forall>j<k. \<exists>e. fst (nth_attempt E A W m inc u r j) = Inl e"
  shows "sample_retry E A W m inc u r = Some (s, r')"
  using assms
proof (induction k arbitrary: u r)
  case 0
  then show ?case by (subst sample_retry.simps) (simp add: nth_attempt_0)
next
  case (Suc k)
  from Suc.prems(2) have "\<exists>e. fst (nth_attempt E A W m inc u r 0) = Inl e" by blast
  then obtain e r1 where att: "sample_attempt E A W m r u = (Inl e, r1)"
    by (cases "sample_attempt E A W m r u") (auto simp: nth_attempt_0)
  have 1: "nth_attempt E A W m inc (shrink inc u) r1 k = (Inr s, r')"
    using Suc.prems(1) by (simp add: nth_attempt_Suc att)
  have 2: "\<forall>j<k. \<exists>e. fst (nth_attempt E A W m inc (shrink inc u) r1 j) = Inl e"
  proof (intro allI impI)
    fix j assume "j < k"
    then have "Suc j < Suc k" by simp
    with Suc.prems(2) have "\<exists>e. fst (nth_attempt E A W m inc u r (Suc j)) = Inl e" by blast
    then show "\<exists>e. fst (nth_attempt E A W m inc (shrink inc u) r1 j) = Inl e"
      by (simp add: nth_attempt_Suc att)
  qed
  from Suc.IH [OF 1 2] att show ?case
    by (subst sample_retry.simps) simp
qed

lemma sample_retry_first_fit_only_if:
  assumes "sample_retry E A W m inc u r = Some y"
  shows "\<exists>k. nth_attempt E A W m inc u r k = (Inr (fst y), snd y) \<and>
              (\<forall>j<k. \<exists>e. fst (nth_attempt E A W m inc u r j) = Inl e)"
proof (rule sample_retry.raw_induct
    [where P = "\<lambda>E A W m inc u r y.
       \<exists>k. nth_attempt E A W m inc u r k = (Inr (fst y), snd y) \<and>
              (\<forall>j<k. \<exists>e. fst (nth_attempt E A W m inc u r j) = Inl e)",
      OF _ assms])
  fix f and E :: "'a externals" and A W m inc u r
    and y :: "(string \<times> string \<times> string list \<times> int) \<times> 'a"
  assume IH: "\<And>E A W m inc u r y. f E A W m inc u r = Some y \<Longrightarrow>
       \<exists>k. nth_attempt E A W m inc u r k = (Inr (fst y), snd y) \<and>
              (\<forall>j<k. \<exists>e. fst (nth_attempt E A W m inc u r j) = Inl e)"
    and body: "(case sample_attempt E A W m r u of
          (Inr s, r') \<Rightarrow> Some (s, r')
        | (Inl e, r') \<Rightarrow> f E A W m inc (shrink inc u) r') = Some y"
  show "\<exists>k. nth_attempt E A W m inc u r k = (Inr (fst y), snd y) \<and>
              (\<forall>j<k. \<exists>e. fst (nth_attempt E A W m inc u r j) = Inl e)"
  proof (cases "sample_attempt E A W m r u")
    case (Pair res r1)
    show ?thesis
    proof (cases res)
      case (Inr s)
      with Pair body have "y = (s, r1)" by simp
      with Pair Inr have "nth_attempt E A W m inc u r 0 = (Inr (fst y), snd y) \<and>
              (\<forall>j<0. \<exists>e. fst (nth_attempt E A W m inc u r j) = Inl e)"
        by (simp add: nth_attempt_0)
      then show ?thesis by (rule exI)
    next
      case (Inl e)
      with Pair body have "f E A W m inc (shrink inc u) r1 = Some y" by simp
      from IH [OF this] obtain k where
        k1: "nth_attempt E A W m inc (shrink inc u) r1 k = (Inr (fst y), snd y)" and
        k2: "\<forall>j<k. \<exists>e. fst (nth_attempt E A W m inc (shrink inc u) r1 j) = Inl e"
        by blast
      have a: "nth_attempt E A W m inc u r (Suc k) = (Inr (fst y), snd y)"
        using k1 by (simp add: nth_attempt_Suc Pair)
      have b: "\<forall>j<Suc k. \<exists>e. fst (nth_attempt E A W m inc u r j) = Inl e"
      proof (intro allI impI)
        fix j assume j: "j < Suc k"
        show "\<exists>e. fst (nth_attempt E A W m inc u r j) = Inl e"
        proof (cases j)
          case 0
          with Pair Inl show ?thesis by (simp add: nth_attempt_0)
        next
          case (Suc j')
          with j have "j' < k" by simp
          with k2 have "\<exists>e. fst (nth_attempt E A W m inc (shrink inc u) r1 j') = Inl e"
            by blast
          then show ?thesis by (simp add: Suc nth_attempt_Suc Pair)
        qed
      qed
      from a b show ?thesis by blast
    qed
  qed
qed

lemma sample_retry_iff:
  "sample_retry E A W m inc u r = Some (s, r') \<longleftrightarrow>
     (\<exists>k. nth_attempt E A W m inc u r k = (Inr s, r') \<and>
           (\<forall>j<k. \<exists>e. fst (nth_attempt E A W m inc u r j) = Inl e))"
proof
  assume "sample_retry E A W m inc u r = Some (s, r')"
  from sample_retry_first_fit_only_if [OF this]
  show "\<exists>k. nth_attempt E A W m inc u r k = (Inr s, r') \<and>
           (\<forall>j<k. \<exists>e. fst (nth_attempt E A W m inc u r j) = Inl e)" by simp
next
  assume "\<exists>k. nth_attempt E A W m inc u r k = (Inr s, r') \<and>
           (\<forall>j<k. \<exists>e. fst (nth_attempt E A W m inc u r j) = Inl e)"
  then show "sample_retry E A W m inc u r = Some (s, r')"
    by (auto intro: sample_retry_first_fit_if)
qed

lemma nth_attempt_is_attempt:
  "\<exists>rk uk. nth_attempt E A W m inc u r k = sample_attempt E A W m rk uk"
  by (auto simp: nth_attempt_def split: prod.splits)

lemma sample_retry_diverges:
  assumes "\<And>r u. \<exists>e. fst (sample_attempt E A W m r u) = Inl e"
  shows "sample_retry E A W m inc u r = None"
proof (cases "sample_retry E A W m inc u r")
  case None
  then show ?thesis .
next
  case (Some y)
  from sample_retry_first_fit_only_if [OF Some] obtain k where
    k: "nth_attempt E A W m inc u r k = (Inr (fst y), snd y)" by blast
  from nth_attempt_is_attempt [of E A W m inc u r k] obtain rk uk where
    "nth_attempt E A W m inc u r k = sample_attempt E A W m rk uk" by blast
  with k assms [of rk uk] show ?thesis by simp
qed

subsection \<open>The trials of the search for the number of words\<close>

text \<open>
  With a positive \<open>incremental\<close> the search returns. What it printed are the trials it made,
  in order; the clauses say what it returns when the last trial was over the budget, and
  when the last trial was within the budget and the next count is above the size of the
  word pool.
\<close>

lemma find_num_words_run:
  assumes inc: "0 < inc"
  shows "\<exists>res r' new. find_num_words E A W m inc n t r out = Some (res, r', out @ new) \<and>
     (new \<noteq> [] \<longrightarrow> t + tokens_to_generate A < m \<and> (\<exists>cur. hd new = Progress m cur n)) \<and>
     (\<forall>k cur j. res = Inr k \<and> new \<noteq> [] \<and> last new = Progress m cur j \<and> m < cur \<longrightarrow>
         k = j - inc \<and> (j = n \<or> (\<exists>cur'. Progress m cur' k \<in> set new \<and> cur' < m))) \<and>
     (\<forall>cur j. Progress m cur j \<in> set new \<longrightarrow> trial_measured E A W cur j) \<and>
     (\<forall>p \<in> set new. \<exists>cur j. p = Progress m cur j) \<and>
     (\<forall>k cur j. res = Inr k \<and> new \<noteq> [] \<and> last new = Progress m cur j \<and> cur \<le> m
          \<and> int (length W) < j + inc \<longrightarrow> k = int (length W))"
proof (induction "nat (int (length W) - n)" arbitrary: n t r out rule: less_induct)
  case less
  let ?ttg = "tokens_to_generate A"
  show ?case
  proof (cases "t + ?ttg < m")
    case False
    then have "find_num_words E A W m inc n t r out = Some (Inr n, r, out @ [])"
      by (subst find_num_words.simps) simp
    then show ?thesis by (intro exI [of _ "Inr n"] exI [of _ r] exI [of _ "[]"]) simp
  next
    case True
    obtain res0 r1 where gio: "generate_input_output E A W r n = (res0, r1)"
      by (cases "generate_input_output E A W r n") auto
    show ?thesis
    proof (cases res0)
      case (Inl e)
      with True gio have "find_num_words E A W m inc n t r out = Some (Inl e, r1, out @ [])"
        by (subst find_num_words.simps) simp
      then show ?thesis by (intro exI [of _ "Inl e"] exI [of _ r1] exI [of _ "[]"]) simp
    next
      case (Inr cqa)
      obtain c q a where cqa: "cqa = (c, q, a)" by (cases cqa) auto
      define total where
        "total = int (length (text_to_tokens E (c @ q @ '' '' @ numbered a)))"
      define e where "e = Progress m (total + ?ttg) n"
      have meas: "trial_measured E A W (total + ?ttg) n"
        unfolding trial_measured_def total_def using gio Inr cqa by blast
      consider (over) "m < total + ?ttg"
        | (cap) "\<not> m < total + ?ttg" "int (length W) < n + inc"
        | (go) "\<not> m < total + ?ttg" "\<not> int (length W) < n + inc" by blast
      then show ?thesis
      proof cases
        case over
        with True gio Inr cqa
        have "find_num_words E A W m inc n t r out = Some (Inr (n - inc), r1, out @ [e])"
          by (subst find_num_words.simps) (simp add: Let_def total_def e_def)
        then show ?thesis
          using True meas over
          by (intro exI [of _ "Inr (n - inc)"] exI [of _ r1] exI [of _ "[e]"])
             (simp add: e_def)
      next
        case cap
        with True gio Inr cqa
        have "find_num_words E A W m inc n t r out
              = Some (Inr (int (length W)), r1, out @ [e])"
          by (subst find_num_words.simps) (simp add: Let_def total_def e_def)
        then show ?thesis
          using True meas cap(1)
          by (intro exI [of _ "Inr (int (length W))"] exI [of _ r1] exI [of _ "[e]"])
             (simp add: e_def)
      next
        case go
        from go(2) inc have "nat (int (length W) - (n + inc)) < nat (int (length W) - n)"
          by simp
        from less.hyps [OF this, of total r1 "out @ [e]"] obtain res r' new1 where
          run: "find_num_words E A W m inc (n + inc) total r1 (out @ [e])
                = Some (res, r', (out @ [e]) @ new1)" and
          first: "new1 \<noteq> [] \<longrightarrow> total + ?ttg < m \<and> (\<exists>cur. hd new1 = Progress m cur (n + inc))" and
          stop: "\<forall>k cur j. res = Inr k \<and> new1 \<noteq> [] \<and> last new1 = Progress m cur j \<and> m < cur \<longrightarrow>
             k = j - inc \<and> (j = n + inc \<or> (\<exists>cur'. Progress m cur' k \<in> set new1 \<and> cur' < m))" and
          all: "\<forall>cur j. Progress m cur j \<in> set new1 \<longrightarrow> trial_measured E A W cur j" and
          shape: "\<forall>p \<in> set new1. \<exists>cur j. p = Progress m cur j" and
          pool: "\<forall>k cur j. res = Inr k \<and> new1 \<noteq> [] \<and> last new1 = Progress m cur j \<and> cur \<le> m
             \<and> int (length W) < j + inc \<longrightarrow> k = int (length W)"
          by (elim exE conjE) (rule that)
        from True gio Inr cqa go run
        have eq: "find_num_words E A W m inc n t r out = Some (res, r', out @ (e # new1))"
          by (subst find_num_words.simps) (simp add: Let_def total_def e_def)
        have 1: "e # new1 \<noteq> [] \<longrightarrow> t + ?ttg < m \<and> (\<exists>cur. hd (e # new1) = Progress m cur n)"
          using True by (simp add: e_def)
        have 2: "\<forall>k cur j. res = Inr k \<and> e # new1 \<noteq> [] \<and> last (e # new1) = Progress m cur j
              \<and> m < cur \<longrightarrow>
             k = j - inc \<and> (j = n \<or> (\<exists>cur'. Progress m cur' k \<in> set (e # new1) \<and> cur' < m))"
        proof (intro allI impI, elim conjE)
          fix k cur j
          assume res: "res = Inr k" and l: "last (e # new1) = Progress m cur j" and c: "m < cur"
          show "k = j - inc \<and> (j = n \<or> (\<exists>cur'. Progress m cur' k \<in> set (e # new1) \<and> cur' < m))"
          proof (cases "new1 = []")
            case True
            with l c go(1) show ?thesis by (simp add: e_def)
          next
            case False
            with l have l1: "last new1 = Progress m cur j" by simp
            from stop res False l1 c have k: "k = j - inc" and
              alt: "j = n + inc \<or> (\<exists>cur'. Progress m cur' k \<in> set new1 \<and> cur' < m)" by blast+
            from alt have "\<exists>cur'. Progress m cur' k \<in> set (e # new1) \<and> cur' < m"
            proof
              assume "j = n + inc"
              with k have "k = n" by simp
              moreover from first False have "total + ?ttg < m" by simp
              ultimately show ?thesis by (auto simp: e_def)
            next
              assume "\<exists>cur'. Progress m cur' k \<in> set new1 \<and> cur' < m"
              then show ?thesis by auto
            qed
            with k show ?thesis by simp
          qed
        qed
        have 3: "\<forall>cur j. Progress m cur j \<in> set (e # new1) \<longrightarrow> trial_measured E A W cur j"
          using all meas by (auto simp: e_def)
        have 4: "\<forall>p \<in> set (e # new1). \<exists>cur j. p = Progress m cur j"
          using shape by (auto simp: e_def)
        have 5: "\<forall>k cur j. res = Inr k \<and> e # new1 \<noteq> [] \<and> last (e # new1) = Progress m cur j
              \<and> cur \<le> m \<and> int (length W) < j + inc \<longrightarrow> k = int (length W)"
        proof (intro allI impI, elim conjE)
          fix k cur j
          assume res: "res = Inr k" and l: "last (e # new1) = Progress m cur j"
            and c: "cur \<le> m" and p: "int (length W) < j + inc"
          show "k = int (length W)"
          proof (cases "new1 = []")
            case True
            with l p go(2) show ?thesis by (simp add: e_def)
          next
            case False
            with l have "last new1 = Progress m cur j" by simp
            with pool res False c p show ?thesis by blast
          qed
        qed
        from eq 1 2 3 4 5 show ?thesis by blast
      qed
    qed
  qed
qed

subsection \<open>The run of the small instance\<close>

lemma map_enumerate_number_from:
  "map (\<lambda>(i, word). str (int i + 1) @ ''. '' @ word) (enumerate n ws) = number_from (int n + 1) ws"
  by (induction ws arbitrary: n) (simp_all add: add.commute)

lemma numbered_number_from: "numbered ws = join '' '' (number_from 1 ws)"
  using map_enumerate_number_from [of 0 ws] by (simp add: numbered_def)

lemma list_times_0: "list_times xs 0 = []"
  by (simp add: list_times_def)

lemma list_times_pos: "0 < k \<Longrightarrow> list_times xs k = xs @ list_times xs (k - 1)"
proof -
  assume "0 < k"
  then have "nat k = Suc (nat (k - 1))" by simp
  then show ?thesis by (simp add: list_times_def)
qed

lemma words_pool_corpus0: "words_pool E0 A corpus0 = W0"
proof -
  have "sorted corpus0" by (simp add: corpus0_def less_eq_list_code less_list_code)
  then have "sort corpus0 = corpus0" by (rule sorted_sort_id)
  then show ?thesis by (simp add: words_pool_def E0_def corpus0_def W0_def)
qed

lemmas generator_eval = E0_def W0_def A0_def generate_input_output_def get_examples_def
  get_example_def random_sample_def slice_to_def slice_from_def slice_index_def
  list_times_0 list_times_pos numbered_number_from str_def str_nat.simps Let_def

lemma generate_0_10:
  "generate_input_output E0 A0 W0 0 10 =
     (Inr (''1. a 2. b 3. c 4. d 5. e 6. f 7. g 8. h 9. i 10. j 11. k 12. l 13. m 14. n 15. o 16. p 17. q 18. r 19. s 20. t 21. s 22. t 23. s 24. t Q: 1. t 2. s'' @ [CHR 0x0A] @ ''1. j 2. k 3. l 4. m 5. n 6. o 7. p 8. q 9. r 10. s 11. r 12. s 13. r 14. s 15. r 16. s 17. r 18. s 19. r 20. s'',
           '' Q: '', [''s'', ''r'']), 2)"
  by (simp add: generator_eval)

lemma generate_2_20:
  "generate_input_output E0 A0 W0 2 20 =
     (Inr (''1. s 2. t 3. a 4. b 5. c 6. d 7. e 8. f 9. g 10. h 11. i 12. j 13. k 14. l 15. m 16. n 17. o 18. p 19. q 20. r 21. q 22. r 23. q 24. r Q: 1. r 2. q'' @ [CHR 0x0A] @ ''1. r 2. s 3. t 4. a 5. b 6. c 7. d 8. e 9. f 10. g 11. h 12. i 13. j 14. k 15. l 16. m 17. n 18. o 19. p 20. q 21. p 22. q 23. p 24. q 25. p 26. q 27. p 28. q 29. p 30. q'',
           '' Q: '', [''q'', ''p'']), 4)"
  by (simp add: generator_eval)

lemma generate_4_20:
  "generate_input_output E0 A0 W0 4 20 =
     (Inr (''1. q 2. r 3. s 4. t 5. a 6. b 7. c 8. d 9. e 10. f 11. g 12. h 13. i 14. j 15. k 16. l 17. m 18. n 19. o 20. p 21. o 22. p 23. o 24. p Q: 1. p 2. o'' @ [CHR 0x0A] @ ''1. p 2. q 3. r 4. s 5. t 6. a 7. b 8. c 9. d 10. e 11. f 12. g 13. h 14. i 15. j 16. k 17. l 18. m 19. n 20. o 21. n 22. o 23. n 24. o 25. n 26. o 27. n 28. o 29. n 30. o'',
           '' Q: '', [''o'', ''n'']), 6)"
  by (simp add: generator_eval)

lemma generate_4_10:
  "generate_input_output E0 A0 W0 4 10 =
     (Inr (''1. q 2. r 3. s 4. t 5. a 6. b 7. c 8. d 9. e 10. f 11. g 12. h 13. i 14. j 15. k 16. l 17. m 18. n 19. o 20. p 21. o 22. p 23. o 24. p Q: 1. p 2. o'' @ [CHR 0x0A] @ ''1. f 2. g 3. h 4. i 5. j 6. k 7. l 8. m 9. n 10. o 11. n 12. o 13. n 14. o 15. n 16. o 17. n 18. o 19. n 20. o'',
           '' Q: '', [''o'', ''n'']), 6)"
  by (simp add: generator_eval)

lemma E0_tokens: "length (text_to_tokens E0 s) = length s"
  by (simp add: E0_def)

lemma A0_fields:
  "tokens_to_generate A0 = 30" "max_seq_length A0 = 400" "num_samples A0 = 1"
  "random_seed A0 = 42" "remove_newline_tab A0 = False" "query_template A0 = '' Q: ''"
  "num_cw A0 = 2"
  by (simp_all add: A0_def)

lemma W0_length: "length W0 = 20"
  by (simp add: W0_def)

lemmas loop_eval = E0_tokens A0_fields W0_length numbered_number_from str_def str_nat.simps
  generate_0_10 generate_2_20 generate_4_20 generate_4_10

lemma find_num_words_400:
  "find_num_words E0 A0 W0 400 10 10 0 0 []
   = Some (Inr 20, 4, [Progress 400 302 10, Progress 400 362 20])"
  by (simp add: find_num_words.simps loop_eval)

lemma find_num_words_350:
  "find_num_words E0 A0 W0 350 10 10 0 0 []
   = Some (Inr 10, 4, [Progress 350 302 10, Progress 350 362 20])"
  by (simp add: find_num_words.simps loop_eval)

lemma find_num_words_302:
  "find_num_words E0 A0 W0 302 10 10 0 0 [] = Some (Inr 20, 2, [Progress 302 302 10])"
  by (simp add: find_num_words.simps loop_eval)

lemma sample_attempt_4_20:
  "\<exists>c. sample_attempt E0 A0 W0 400 4 20 = (Inr (c, '' Q: '', [''o'', ''n''], 352), 6)"
  by (simp add: sample_attempt_def loop_eval)



lemma E0_seed: "seed_state E0 s = 0"
  by (simp add: E0_def)

lemma main_generate_run:
  "main_generate E0 A0 corpus0
   = Some (Inr [example0], [Progress 400 302 10, Progress 400 362 20, Num_words 20])"
  by (simp add: main_generate_def words_pool_corpus0 E0_seed sys_word_pair_random_def
      find_num_words_400 sample_retry.simps sample_attempt_def formatted_output_def tidy_def
      example0_def loop_eval)

text \<open>
  The run of the small instance (without \<open>remove_newline_tab\<close>) writes one record, of length
  352 under the budget 400, which is the length of its own context and query plus 30.
\<close>

theorem example_length_within_budget_witness:
  "main_generate E0 A0 corpus0
     = Some (Inr [example0], [Progress 400 302 10, Progress 400 362 20, Num_words 20])
   \<and> example0 \<in> set [example0]
   \<and> length_field example0 \<le> max_seq_length A0
   \<and> (\<exists>context query.
         input_context example0 = tidy A0 context \<and> input_query example0 = tidy A0 query \<and>
         length_field example0
           = int (length (text_to_tokens E0 (context @ query))) + tokens_to_generate A0 \<and>
         int (length (text_to_tokens E0 (context @ query)))
           \<le> max_seq_length A0 - tokens_to_generate A0)
   \<and> \<not> remove_newline_tab A0
   \<and> length_field example0
       = int (length (text_to_tokens E0 (input_context example0 @ input_query example0)))
         + tokens_to_generate A0
   \<and> int (length (text_to_tokens E0 (input_context example0 @ input_query example0)))
       \<le> max_seq_length A0 - tokens_to_generate A0"
proof -
  have off: "\<not> remove_newline_tab A0" by (simp add: A0_def)
  have mem: "example0 \<in> set [example0]" by simp
  from example_length_within_budget [OF main_generate_run mem] off main_generate_run mem
  show ?thesis by blast
qed

text \<open>
  In the run of the small instance the outputs are the first two words drawn.
\<close>

theorem outputs_are_common_words_witness:
  "main_generate E0 A0 corpus0
     = Some (Inr [example0], [Progress 400 302 10, Progress 400 362 20, Num_words 20])
   \<and> example0 \<in> set [example0]
   \<and> outputs example0 = [''o'', ''n'']
   \<and> (\<exists>r0 k shot rendered.
           outputs example0
             = slice_to (fst (draw_sample E0 r0 (words_pool E0 A0 corpus0) k)) (num_cw A0) \<and>
           format_context E0 (context_template A0)
             (numbered (Random_shuffle E0 (random_seed A0)
                (list_times (slice_to (fst (draw_sample E0 r0 (words_pool E0 A0 corpus0) k))
                               (num_cw A0))
                   (if max_seq_length A0 < 4096 then 6 else freq_cw A0)
                 @ list_times (slice_from (fst (draw_sample E0 r0 (words_pool E0 A0 corpus0) k))
                                 (num_cw A0))
                   (if max_seq_length A0 < 4096 then 1 else freq_ucw A0))))
             = Inr rendered \<and>
           input_context example0 = tidy A0 (shot @ [CHR 0x0A] @ rendered) \<and>
           (0 \<le> num_cw A0 \<longrightarrow>
              outputs example0
                = take (nat (num_cw A0)) (fst (draw_sample E0 r0 (words_pool E0 A0 corpus0) k))))"
proof -
  have "example0 \<in> set [example0]" by simp
  from outputs_are_common_words [OF main_generate_run this] main_generate_run
  show ?thesis by (simp add: example0_def)
qed

text \<open>
  The corpus of the small instance, enumerated forwards and backwards.
\<close>

theorem generator_deterministic_witness:
  "distinct corpus0 \<and> distinct (rev corpus0) \<and> set corpus0 = set (rev corpus0)
   \<and> main_generate E0 A0 corpus0 = main_generate E0 A0 (rev corpus0)"
proof -
  have d: "distinct corpus0" by (simp add: corpus0_def)
  then have d': "distinct (rev corpus0)" by simp
  have s: "set corpus0 = set (rev corpus0)" by simp
  from generator_deterministic [OF d d' s] d d' s show ?thesis by blast
qed


subsection \<open>What the search for the number of words returns\<close>

text \<open>
  No example has more items than the word pool has words: \<open>random.sample\<close> raises.
\<close>

lemma generate_input_output_above_pool:
  assumes "int (length W) < n"
  shows "\<exists>e r1. generate_input_output E A W r n = (Inl e, r1)"
proof (cases "generate_input_output E A W r n")
  case (Pair x r1)
  show ?thesis
  proof (cases x)
    case (Inl e)
    with Pair show ?thesis by simp
  next
    case (Inr cqa)
    obtain c q a where "cqa = (c, q, a)" by (cases cqa) auto
    with Pair Inr have "generate_input_output E A W r n = (Inr (c, q, a), r1)" by simp
    from generate_input_output_Inr [OF this] obtain r0 cr ur body where
      "get_example E A W r0 n cr ur (num_cw A) = (Inr (body, a), r1)" by blast
    from get_example_Inr [OF this] assms show ?thesis by simp
  qed
qed

lemma trial_measured_within_pool:
  assumes "trial_measured E A W cur j"
  shows "j \<le> int (length W)"
proof (rule ccontr)
  assume "\<not> j \<le> int (length W)"
  then have "int (length W) < j" by simp
  from assms obtain r0 r1 c q a where
    "generate_input_output E A W r0 j = (Inr (c, q, a), r1)"
    unfolding trial_measured_def by blast
  with generate_input_output_above_pool [OF \<open>int (length W) < j\<close>, of E A r0]
  show False by auto
qed

text \<open>
  Claim C1. With a positive \<open>incremental\<close> the search for \<open>num_words\<close> returns. When its last
  trial overflowed the budget (the measured length plus \<open>tokens_to_generate\<close> is above
  \<open>max_seq_length\<close>), the count \<open>k\<close> it returns is the count of that trial less one increment:
  the example tried at \<open>k + incremental\<close> items was measured above the budget and, when \<open>k\<close> is
  positive, the example tried at \<open>k\<close> items was measured strictly below it (nothing is said of
  the count 0, which is returned when the first trial overflowed). When the last trial
  was within the budget and the next count is above the size of the word pool, the search
  returns the size of the pool, which is at least the count of that trial, and no example
  of \<open>k + incremental\<close> items exists.
\<close>

theorem calibration_search_result:
  assumes "0 < incremental"
  shows "\<exists>res r' out.
     find_num_words E A W m incremental incremental 0 r [] = Some (res, r', out) \<and>
     (\<forall>k cur j. res = Inr k \<and> out \<noteq> [] \<and> last out = Progress m cur j \<and> m < cur \<longrightarrow>
        j = k + incremental \<and> trial_measured E A W cur (k + incremental) \<and>
        (0 < k \<longrightarrow>
           (\<exists>cur'. Progress m cur' k \<in> set out \<and> cur' < m \<and> trial_measured E A W cur' k))) \<and>
     (\<forall>k cur j. res = Inr k \<and> out \<noteq> [] \<and> last out = Progress m cur j \<and> cur \<le> m
                 \<and> int (length W) < j + incremental \<longrightarrow>
        k = int (length W) \<and> j \<le> k \<and> trial_measured E A W cur j \<and>
        (\<forall>r0. \<exists>e r1. generate_input_output E A W r0 (k + incremental) = (Inl e, r1)))"
proof -
  from find_num_words_run [OF assms, of E A W m incremental 0 r "[]"]
  obtain res r' out where
    run: "find_num_words E A W m incremental incremental 0 r [] = Some (res, r', out)" and
    stop: "\<forall>k cur j. res = Inr k \<and> out \<noteq> [] \<and> last out = Progress m cur j \<and> m < cur \<longrightarrow>
         k = j - incremental
         \<and> (j = incremental \<or> (\<exists>cur'. Progress m cur' k \<in> set out \<and> cur' < m))" and
    all: "\<forall>cur j. Progress m cur j \<in> set out \<longrightarrow> trial_measured E A W cur j" and
    pool: "\<forall>k cur j. res = Inr k \<and> out \<noteq> [] \<and> last out = Progress m cur j \<and> cur \<le> m
          \<and> int (length W) < j + incremental \<longrightarrow> k = int (length W)"
    by auto
  have over: "\<forall>k cur j. res = Inr k \<and> out \<noteq> [] \<and> last out = Progress m cur j \<and> m < cur \<longrightarrow>
        j = k + incremental \<and> trial_measured E A W cur (k + incremental) \<and>
        (0 < k \<longrightarrow>
           (\<exists>cur'. Progress m cur' k \<in> set out \<and> cur' < m \<and> trial_measured E A W cur' k))"
  proof (intro allI impI, elim conjE)
    fix k cur j
    assume h: "res = Inr k" "out \<noteq> []" "last out = Progress m cur j" "m < cur"
    with stop have k: "k = j - incremental" and
      alt: "j = incremental \<or> (\<exists>cur'. Progress m cur' k \<in> set out \<and> cur' < m)" by blast+
    from h(2,3) have "Progress m cur j \<in> set out" by (metis last_in_set)
    with all have tm: "trial_measured E A W cur j" by blast
    have "0 < k \<longrightarrow>
           (\<exists>cur'. Progress m cur' k \<in> set out \<and> cur' < m \<and> trial_measured E A W cur' k)"
    proof
      assume "0 < k"
      with k alt obtain cur' where "Progress m cur' k \<in> set out" "cur' < m" by auto
      with all show "\<exists>cur'. Progress m cur' k \<in> set out \<and> cur' < m
          \<and> trial_measured E A W cur' k" by blast
    qed
    with k tm show "j = k + incremental \<and> trial_measured E A W cur (k + incremental) \<and>
        (0 < k \<longrightarrow>
           (\<exists>cur'. Progress m cur' k \<in> set out \<and> cur' < m \<and> trial_measured E A W cur' k))"
      by simp
  qed
  have cap: "\<forall>k cur j. res = Inr k \<and> out \<noteq> [] \<and> last out = Progress m cur j \<and> cur \<le> m
                 \<and> int (length W) < j + incremental \<longrightarrow>
        k = int (length W) \<and> j \<le> k \<and> trial_measured E A W cur j \<and>
        (\<forall>r0. \<exists>e r1. generate_input_output E A W r0 (k + incremental) = (Inl e, r1))"
  proof (intro allI impI, elim conjE)
    fix k cur j
    assume h: "res = Inr k" "out \<noteq> []" "last out = Progress m cur j" "cur \<le> m"
      "int (length W) < j + incremental"
    with pool have k: "k = int (length W)" by blast
    from h(2,3) have "Progress m cur j \<in> set out" by (metis last_in_set)
    with all have tm: "trial_measured E A W cur j" by blast
    from trial_measured_within_pool [OF tm] k have jk: "j \<le> k" by simp
    from k assms have "int (length W) < k + incremental" by simp
    then have "\<forall>r0. \<exists>e r1. generate_input_output E A W r0 (k + incremental) = (Inl e, r1)"
      by (simp add: generate_input_output_above_pool)
    with k jk tm show "k = int (length W) \<and> j \<le> k \<and> trial_measured E A W cur j \<and>
        (\<forall>r0. \<exists>e r1. generate_input_output E A W r0 (k + incremental) = (Inl e, r1))"
      by simp
  qed
  from run over cap show ?thesis by blast
qed

text \<open>
  The small instance. With the budget 350 the trial at 10 items measures 302, the trial at
  20 items measures 362, and the search returns 10. With the budget 400 both trials are
  within the budget, 30 is above the 20 words of the pool, and the search returns 20.
\<close>

theorem calibration_search_result_witness:
  "(0 :: int) < 10
   \<and> find_num_words E0 A0 W0 350 10 10 0 0 []
       = Some (Inr 10, 4, [Progress 350 302 10, Progress 350 362 20])
   \<and> trial_measured E0 A0 W0 362 (10 + 10)
   \<and> (\<exists>cur'. Progress 350 cur' 10 \<in> set [Progress 350 302 10, Progress 350 362 20]
         \<and> cur' < 350 \<and> trial_measured E0 A0 W0 cur' 10)
   \<and> find_num_words E0 A0 W0 400 10 10 0 0 []
       = Some (Inr 20, 4, [Progress 400 302 10, Progress 400 362 20])
   \<and> (20 :: int) = int (length W0)
   \<and> trial_measured E0 A0 W0 362 20
   \<and> (\<forall>r0. \<exists>e r1. generate_input_output E0 A0 W0 r0 (20 + 10) = (Inl e, r1))"
proof -
  have pos: "(0 :: int) < 10" by simp
  from calibration_search_result [OF pos, of E0 A0 W0 350 0]
  have "\<forall>k cur j. (Inr 10 :: error + int) = Inr k
          \<and> [Progress 350 302 10, Progress 350 362 20] \<noteq> []
          \<and> last [Progress 350 302 10, Progress 350 362 20] = Progress 350 cur j \<and> 350 < cur \<longrightarrow>
        j = k + 10 \<and> trial_measured E0 A0 W0 cur (k + 10) \<and>
        (0 < k \<longrightarrow>
           (\<exists>cur'. Progress 350 cur' k \<in> set [Progress 350 302 10, Progress 350 362 20]
              \<and> cur' < 350 \<and> trial_measured E0 A0 W0 cur' k))"
    by (simp add: find_num_words_350)
  then have over: "trial_measured E0 A0 W0 362 (10 + 10) \<and>
        (\<exists>cur'. Progress 350 cur' 10 \<in> set [Progress 350 302 10, Progress 350 362 20]
              \<and> cur' < 350 \<and> trial_measured E0 A0 W0 cur' 10)"
    by (auto dest!: spec [of _ 10] spec [of _ 362] spec [of _ 20])
  from calibration_search_result [OF pos, of E0 A0 W0 400 0]
  have "\<forall>k cur j. (Inr 20 :: error + int) = Inr k
          \<and> [Progress 400 302 10, Progress 400 362 20] \<noteq> []
          \<and> last [Progress 400 302 10, Progress 400 362 20] = Progress 400 cur j \<and> cur \<le> 400
          \<and> int (length W0) < j + 10 \<longrightarrow>
        k = int (length W0) \<and> j \<le> k \<and> trial_measured E0 A0 W0 cur j \<and>
        (\<forall>r0. \<exists>e r1. generate_input_output E0 A0 W0 r0 (k + 10) = (Inl e, r1))"
    by (simp add: find_num_words_400)
  then have cap: "(20 :: int) = int (length W0) \<and> trial_measured E0 A0 W0 362 20 \<and>
        (\<forall>r0. \<exists>e r1. generate_input_output E0 A0 W0 r0 (20 + 10) = (Inl e, r1))"
    by (auto dest!: spec [of _ 20] spec [of _ 362] simp: W0_length)
  from pos find_num_words_350 find_num_words_400 over cap show ?thesis by blast
qed

text \<open>
  Below 4096, \<open>generate_input_output\<close> reads \<open>max_seq_length\<close> only to compare it with 4096.
\<close>

lemma generate_input_output_max_seq_length:
  assumes "max_seq_length A < 4096" and "m < 4096"
  shows "generate_input_output E (A\<lparr>max_seq_length := m\<rparr>) W r n
         = generate_input_output E A W r n"
proof -
  have ge: "\<And>r n cr ur cn. get_example E (A\<lparr>max_seq_length := m\<rparr>) W r n cr ur cn
      = get_example E A W r n cr ur cn"
    by (simp add: get_example_def Let_def cong: prod.case_cong sum.case_cong)
  have ges: "\<And>r a b. get_examples E (A\<lparr>max_seq_length := m\<rparr>) W r a b
      = get_examples E A W r a b"
    by (simp add: get_examples_def ge cong: prod.case_cong sum.case_cong)
  from assms show ?thesis
    by (simp add: generate_input_output_def ges cong: prod.case_cong sum.case_cong)
qed

lemma generate_4_30: "generate_input_output E0 A0 W0 4 (20 + 10) = (Inl ValueError, 5)"
  by (simp add: generator_eval get_example_def random_sample_def)

lemma generate_2_0:
  "generate_input_output E0 A0 W0 2 0 =
     (Inr (''1. s 2. t 3. a 4. b 5. c 6. d 7. e 8. f 9. g 10. h 11. i 12. j 13. k 14. l 15. m 16. n 17. o 18. p 19. q 20. r 21. q 22. r 23. q 24. r Q: 1. r 2. q'' @ [CHR 0x0A],
           '' Q: '', []), 4)"
  by (simp add: generator_eval)

lemma find_num_words_150:
  "find_num_words E0 A0 W0 150 10 10 0 0 [] = Some (Inr 0, 2, [Progress 150 302 10])"
  by (simp add: find_num_words.simps loop_eval)

text \<open>
  The small instance. With the budget 400 the search returns the size of the pool, 20, and
  an example of 30 items cannot be built (\<open>ValueError\<close>), so that none is over the budget.
  With the budget 150 the first trial overflows and the search returns 0; the example of 0
  items built next measures 183, above the budget.
\<close>

theorem calibration_pool_cap_and_first_overflow_counterexample:
  "find_num_words E0 A0 W0 (max_seq_length A0) 10 10 0 0 []
     = Some (Inr 20, 4, [Progress 400 302 10, Progress 400 362 20])
   \<and> generate_input_output E0 A0 W0 4 (20 + 10) = (Inl ValueError, 5)
   \<and> find_num_words E0 (A0\<lparr>max_seq_length := 150\<rparr>) W0 150 10 10 0 0 []
       = Some (Inr 0, 2, [Progress 150 302 10])
   \<and> generate_input_output E0 (A0\<lparr>max_seq_length := 150\<rparr>) W0 2 0
       = (Inr (''1. s 2. t 3. a 4. b 5. c 6. d 7. e 8. f 9. g 10. h 11. i 12. j 13. k 14. l 15. m 16. n 17. o 18. p 19. q 20. r 21. q 22. r 23. q 24. r Q: 1. r 2. q'' @ [CHR 0x0A],
            '' Q: '', []), 4)
   \<and> int (length (text_to_tokens E0
         ((''1. s 2. t 3. a 4. b 5. c 6. d 7. e 8. f 9. g 10. h 11. i 12. j 13. k 14. l 15. m 16. n 17. o 18. p 19. q 20. r 21. q 22. r 23. q 24. r Q: 1. r 2. q'' @ [CHR 0x0A])
          @ '' Q: '' @ '' '' @ numbered [])))
       + tokens_to_generate (A0\<lparr>max_seq_length := 150\<rparr>) = 183
   \<and> (150 :: int) < 183"
proof -
  let ?A = "A0\<lparr>max_seq_length := 150\<rparr>"
  have gio: "\<And>r n. generate_input_output E0 ?A W0 r n = generate_input_output E0 A0 W0 r n"
    by (rule generate_input_output_max_seq_length) (simp_all add: A0_def)
  have ttg: "tokens_to_generate ?A = tokens_to_generate A0" by simp
  show ?thesis
    by (simp add: find_num_words_cong [OF gio ttg] gio find_num_words_150 find_num_words_400
        generate_4_30 [simplified] generate_2_0 ttg E0_tokens A0_fields numbered_def)
qed

text \<open>
  A trial that meets the budget exactly: with the budget 302 the trial at 10 items measures
  302, the count goes up to 20, the loop test \<open>302 < 302\<close> fails, and the search returns 20
  without a trial at 20 items; the example built next at 20 items measures 362.
\<close>

lemma calibration_exact_fit_run:
  "find_num_words E0 (A0\<lparr>max_seq_length := 302\<rparr>) W0 302 10 10 0 0 []
     = Some (Inr 20, 2, [Progress 302 302 10])
   \<and> (case generate_input_output E0 (A0\<lparr>max_seq_length := 302\<rparr>) W0 2 20 of
         (Inr (c, q, a), r') \<Rightarrow>
           302 < int (length (text_to_tokens E0 (c @ q @ '' '' @ numbered a)))
                 + tokens_to_generate (A0\<lparr>max_seq_length := 302\<rparr>)
       | (Inl e, r') \<Rightarrow> False)"
proof -
  have gio: "\<And>r n. generate_input_output E0 (A0\<lparr>max_seq_length := 302\<rparr>) W0 r n
      = generate_input_output E0 A0 W0 r n"
    by (rule generate_input_output_max_seq_length) (simp_all add: A0_def)
  have ttg: "tokens_to_generate (A0\<lparr>max_seq_length := 302\<rparr>) = tokens_to_generate A0" by simp
  show ?thesis
    by (simp add: find_num_words_cong [OF gio ttg] gio find_num_words_302 loop_eval)
qed

subsection \<open>What the loop of one sample returns\<close>

lemma nth_attempt_at_shrunk:
  "\<exists>r_k. nth_attempt E A W m inc u r k = sample_attempt E A W m r_k ((shrink inc ^^ k) u)"
proof -
  obtain uk rk where st: "(retry_step E A W m inc ^^ k) (u, r) = (uk, rk)"
    by (cases "(retry_step E A W m inc ^^ k) (u, r)") auto
  have "fst ((retry_step E A W m inc ^^ k) (u, r)) = (shrink inc ^^ k) u"
    by (rule retry_step_fst)
  with st have "uk = (shrink inc ^^ k) u" by simp
  with st show ?thesis by (auto simp: nth_attempt_def)
qed

lemma sample_retry_None_iff:
  "sample_retry E A W m inc u r = None \<longleftrightarrow>
     (\<forall>k. \<exists>e. fst (nth_attempt E A W m inc u r k) = Inl e)"
proof
  assume none: "sample_retry E A W m inc u r = None"
  show "\<forall>k. \<exists>e. fst (nth_attempt E A W m inc u r k) = Inl e"
  proof (rule ccontr)
    assume "\<not> (\<forall>k. \<exists>e. fst (nth_attempt E A W m inc u r k) = Inl e)"
    then have ex: "\<exists>k. \<not> (\<exists>e. fst (nth_attempt E A W m inc u r k) = Inl e)" by simp
    define k where "k = (LEAST k. \<not> (\<exists>e. fst (nth_attempt E A W m inc u r k) = Inl e))"
    from ex have nk: "\<not> (\<exists>e. fst (nth_attempt E A W m inc u r k) = Inl e)"
      unfolding k_def by (rule LeastI_ex)
    have below: "\<forall>j<k. \<exists>e. fst (nth_attempt E A W m inc u r j) = Inl e"
    proof (intro allI impI)
      fix j assume "j < k"
      then show "\<exists>e. fst (nth_attempt E A W m inc u r j) = Inl e"
        unfolding k_def using not_less_Least by blast
    qed
    obtain x r' where x: "nth_attempt E A W m inc u r k = (x, r')"
      by (cases "nth_attempt E A W m inc u r k") auto
    with nk obtain s where "x = Inr s" by (cases x) auto
    with x have "nth_attempt E A W m inc u r k = (Inr s, r')" by simp
    from sample_retry_first_fit_if [OF this below] none show False by simp
  qed
next
  assume all: "\<forall>k. \<exists>e. fst (nth_attempt E A W m inc u r k) = Inl e"
  show "sample_retry E A W m inc u r = None"
  proof (cases "sample_retry E A W m inc u r")
    case None
    then show ?thesis .
  next
    case (Some y)
    from sample_retry_first_fit_only_if [OF Some] obtain k where
      "nth_attempt E A W m inc u r k = (Inr (fst y), snd y)" by blast
    with all show ?thesis by (metis fst_conv sum.distinct(1))
  qed
qed

text \<open>
  Claim C2. The loop of one sample returns the first attempt that fits the budget, and only
  that: it returns \<open>s\<close> exactly when some attempt \<open>k\<close> gives \<open>s\<close> and every attempt before it
  raised (the failed assertion or any other exception; the bare \<open>except\<close> catches them
  alike). Attempt \<open>k\<close> is made at the item count \<open>used_words\<close> shrunk \<open>k\<close> times, which for a
  positive multiple of \<open>incremental\<close> is \<open>max incremental (used_words - k * incremental)\<close>:
  down by one increment after each failure, to a floor of one increment. No failure is ever
  signalled: the loop has no other exit, and it never returns exactly when every attempt
  raises, the attempts at the floor being repeated forever.
\<close>

theorem sample_loop_first_fit_or_forever:
  "(sample_retry E A W m inc u r = Some (s, r') \<longleftrightarrow>
      (\<exists>k. nth_attempt E A W m inc u r k = (Inr s, r') \<and>
           (\<forall>j<k. \<exists>e. fst (nth_attempt E A W m inc u r j) = Inl e)))
   \<and> (sample_retry E A W m inc u r = None \<longleftrightarrow>
        (\<forall>k. \<exists>e. fst (nth_attempt E A W m inc u r k) = Inl e))
   \<and> (\<forall>k. \<exists>r_k. nth_attempt E A W m inc u r k
                  = sample_attempt E A W m r_k ((shrink inc ^^ k) u))
   \<and> (0 < inc \<and> inc \<le> u \<and> inc dvd u \<longrightarrow>
        (\<forall>k. (shrink inc ^^ k) u = max inc (u - int k * inc)))"
proof -
  have a: "sample_retry E A W m inc u r = Some (s, r') \<longleftrightarrow>
      (\<exists>k. nth_attempt E A W m inc u r k = (Inr s, r') \<and>
           (\<forall>j<k. \<exists>e. fst (nth_attempt E A W m inc u r j) = Inl e))"
    by (rule sample_retry_iff)
  have b: "sample_retry E A W m inc u r = None \<longleftrightarrow>
        (\<forall>k. \<exists>e. fst (nth_attempt E A W m inc u r k) = Inl e)"
    by (rule sample_retry_None_iff)
  have c: "\<forall>k. \<exists>r_k. nth_attempt E A W m inc u r k
                  = sample_attempt E A W m r_k ((shrink inc ^^ k) u)"
    by (simp add: nth_attempt_at_shrunk)
  have d: "0 < inc \<and> inc \<le> u \<and> inc dvd u \<longrightarrow>
        (\<forall>k. (shrink inc ^^ k) u = max inc (u - int k * inc))"
    by (simp add: shrink_funpow_floor)
  from a b c d show ?thesis by (intro conjI)
qed

lemma sample_attempt_2_20:
  "sample_attempt E0 A0 W0 350 2 20 = (Inl AssertionError, 4)"
  by (simp add: sample_attempt_def loop_eval)

lemma sample_attempt_4_10:
  "\<exists>c. sample_attempt E0 A0 W0 350 4 10 = (Inr (c, '' Q: '', [''o'', ''n''], 292), 6)"
  by (simp add: sample_attempt_def loop_eval)

text \<open>
  The small instance with the budget 350, entered with 20 items: the attempt at 20 items
  measures 352 and fails, the attempt at 10 items measures 292 and is returned.
\<close>

theorem sample_loop_first_fit_or_forever_witness:
  "fst (nth_attempt E0 A0 W0 350 10 20 2 0) = Inl AssertionError
   \<and> (\<exists>c. nth_attempt E0 A0 W0 350 10 20 2 1 = (Inr (c, '' Q: '', [''o'', ''n''], 292), 6)
        \<and> sample_retry E0 A0 W0 350 10 20 2 = Some ((c, '' Q: '', [''o'', ''n''], 292), 6))
   \<and> (shrink 10 ^^ 1) (20 :: int) = 10 \<and> (shrink 10 ^^ 5) (20 :: int) = 10"
proof -
  have n0: "nth_attempt E0 A0 W0 350 10 20 2 0 = (Inl AssertionError, 4)"
    by (simp add: nth_attempt_0 sample_attempt_2_20)
  from sample_attempt_4_10 obtain c where
    c: "sample_attempt E0 A0 W0 350 4 10 = (Inr (c, '' Q: '', [''o'', ''n''], 292), 6)" ..
  have n1: "nth_attempt E0 A0 W0 350 10 20 2 1 = (Inr (c, '' Q: '', [''o'', ''n''], 292), 6)"
    by (simp add: nth_attempt_Suc [of _ _ _ _ _ _ _ 0, simplified] nth_attempt_0
        sample_attempt_2_20 shrink_def c)
  have below: "\<forall>j<1. \<exists>e. fst (nth_attempt E0 A0 W0 350 10 20 2 j) = Inl e"
    by (simp add: n0)
  note inst = sample_loop_first_fit_or_forever
      [of E0 A0 W0 350 10 20 2 "(c, '' Q: '', [''o'', ''n''], 292)" 6]
  from inst n1 below
  have run: "sample_retry E0 A0 W0 350 10 20 2 = Some ((c, '' Q: '', [''o'', ''n''], 292), 6)"
    by blast
  from inst have floor: "\<forall>k. (shrink 10 ^^ k) (20 :: int) = max 10 (20 - int k * 10)"
    by simp
  from spec [OF floor, of 1] have s1: "(shrink 10 ^^ 1) (20 :: int) = 10" by simp
  from spec [OF floor, of 5] have s5: "(shrink 10 ^^ 5) (20 :: int) = 10" by simp
  from n0 n1 run s1 s5 show ?thesis by auto
qed

text \<open>
  When the query and the reserved tokens alone are over the budget, every attempt raises.
\<close>

lemma sample_attempt_over_budget:
  assumes tok: "\<And>s. length (text_to_tokens E s) = length s"
    and small: "m < int (length (query_template A)) + tokens_to_generate A"
  shows "\<exists>e. fst (sample_attempt E A W m r u) = Inl e"
proof (cases "sample_attempt E A W m r u")
  case (Pair x r')
  show ?thesis
  proof (cases x)
    case (Inl e)
    with Pair show ?thesis by simp
  next
    case (Inr s)
    obtain c q a len where s: "s = (c, q, a, len)" by (cases s) auto
    from Pair Inr s have att: "sample_attempt E A W m r u = (Inr (c, q, a, len), r')" by simp
    from sample_attempt_Inr [OF att] have
      gio: "generate_input_output E A W r u = (Inr (c, q, a), r')" and
      len: "len = int (length (text_to_tokens E (c @ q))) + tokens_to_generate A" and
      le: "len \<le> m" by simp_all
    from generate_input_output_Inr [OF gio] have "q = query_template A" by simp
    with len tok have "int (length (query_template A)) + tokens_to_generate A \<le> len" by simp
    with le small show ?thesis by simp
  qed
qed

lemma find_num_words_32:
  "find_num_words E0 A0 W0 32 10 10 0 0 [] = Some (Inr 0, 2, [Progress 32 302 10])"
  by (simp add: find_num_words.simps loop_eval)

text \<open>
  The small instance with the budget 32, of which 30 tokens are reserved: the first trial
  of the search overflows, the search returns 0, and every attempt of the loop of the one
  sample is over the budget (the query alone has 4 tokens), so that the loop, and the run
  with it, never returns; no failure is signalled.
\<close>

theorem sample_loop_never_returns_counterexample:
  "sys_word_pair_random E0 (A0\<lparr>max_seq_length := 32\<rparr>) W0 1 32 10 0 = None
   \<and> main_generate E0 (A0\<lparr>max_seq_length := 32\<rparr>) corpus0 = None"
proof -
  let ?A = "A0\<lparr>max_seq_length := 32\<rparr>"
  have gio: "\<And>r n. generate_input_output E0 ?A W0 r n = generate_input_output E0 A0 W0 r n"
    by (rule generate_input_output_max_seq_length) (simp_all add: A0_def)
  have ttg: "tokens_to_generate ?A = tokens_to_generate A0" by simp
  have cal: "find_num_words E0 ?A W0 32 10 10 0 0 [] = Some (Inr 0, 2, [Progress 32 302 10])"
    by (simp add: find_num_words_cong [OF gio ttg] find_num_words_32)
  have "\<And>r u. \<exists>e. fst (sample_attempt E0 ?A W0 32 r u) = Inl e"
    by (rule sample_attempt_over_budget) (simp_all add: E0_tokens A0_def)
  then have loop: "sample_retry E0 ?A W0 32 10 0 2 = None"
    by (rule sample_retry_diverges)
  have sys: "sys_word_pair_random E0 ?A W0 1 32 10 0 = None"
    by (simp add: sys_word_pair_random_def cal loop)
  have "main_generate E0 ?A corpus0 = None"
    by (simp add: main_generate_def words_pool_corpus0 E0_seed A0_fields sys)
  with sys show ?thesis by simp
qed

section \<open>Properties of the orchestrator\<close>

subsection \<open>Validation and skipped sequence lengths\<close>

lemma script_rejects:
  assumes "(\<exists>s \<in> set (seq_lengths a). seq_length_repr s \<notin> set SPLIT_NAMES)
      \<or> (sublist ''star'' (attn_type a) \<and> block_size a \<le> 0)
      \<or> (attn_type a \<noteq> ''dense''
          \<and> (nproc_per_node a = None \<or> (\<exists>n. nproc_per_node a = Some n \<and> n \<le> 0)
              \<or> num_nodes a \<le> 0))
      \<or> \<not> os_path_exists Wd [] (model_path a)
      \<or> (sublist ''star'' (attn_type a) \<and> anchor_block_size a > block_size a)"
  shows "script Wd a = (Some AssertionError, [], [])
         \<or> script Wd a = (Some FileNotFoundError, [], [])"
  using assms
  by (auto simp: script_def main_def main_arguments_def list_all_iff split: option.splits)

lemma schedule_skipped:
  assumes "skipped a s"
  shows "schedule_seq_length Wd a pregen sw s (out, fx) = (None, out @ [skip_message a s], fx)"
  using assms by (simp add: schedule_seq_length_def)

lemma schedule_out_independent:
  "fst (schedule_seq_length Wd a pregen sw s (out, fx))
     = fst (schedule_seq_length Wd a pregen sw s (out', fx))
   \<and> snd (snd (schedule_seq_length Wd a pregen sw s (out, fx)))
     = snd (snd (schedule_seq_length Wd a pregen sw s (out', fx)))"
  by (simp add: schedule_seq_length_def split: sum.splits)

lemma seq_lengths_loop_filter:
  "fst (seq_lengths_loop Wd a pregen sw ss (out, fx))
     = fst (seq_lengths_loop Wd a pregen sw (filter (\<lambda>s. \<not> skipped a s) ss) (out', fx))
   \<and> snd (snd (seq_lengths_loop Wd a pregen sw ss (out, fx)))
     = snd (snd (seq_lengths_loop Wd a pregen sw (filter (\<lambda>s. \<not> skipped a s) ss) (out', fx)))"
proof (induction ss arbitrary: out out' fx)
  case Nil
  show ?case by simp
next
  case (Cons s ss)
  show ?case
  proof (cases "skipped a s")
    case True
    with Cons [of "out @ [skip_message a s]" fx out'] show ?thesis
      by (simp add: schedule_skipped)
  next
    case False
    obtain e o1 f1 where 1: "schedule_seq_length Wd a pregen sw s (out, fx) = (e, o1, f1)"
      by (cases "schedule_seq_length Wd a pregen sw s (out, fx)") auto
    obtain e' o2 f2 where 2: "schedule_seq_length Wd a pregen sw s (out', fx) = (e', o2, f2)"
      by (cases "schedule_seq_length Wd a pregen sw s (out', fx)") auto
    from schedule_out_independent [of Wd a pregen sw s out fx out'] 1 2
    have eq: "e' = e" "f2 = f1" by simp_all
    show ?thesis
    proof (cases e)
      case None
      with False 1 2 eq Cons [of o1 f1 o2] show ?thesis by simp
    next
      case (Some err)
      with False 1 2 eq show ?thesis by simp
    qed
  qed
qed

lemma main_filter:
  "fst (main Wd a (out, fx))
     = fst (main Wd (a\<lparr>seq_lengths := filter (\<lambda>s. \<not> skipped a s) (seq_lengths a)\<rparr>) (out, fx))
   \<and> snd (snd (main Wd a (out, fx)))
     = snd (snd (main Wd (a\<lparr>seq_lengths := filter (\<lambda>s. \<not> skipped a s) (seq_lengths a)\<rparr>)
                  (out, fx)))"
proof -
  let ?a = "a\<lparr>seq_lengths := filter (\<lambda>s. \<not> skipped a s) (seq_lengths a)\<rparr>"
  have sk: "skipped ?a = skipped a" by (simp add: skipped_def fun_eq_iff)
  have ie: "inference_executor ?a = inference_executor a"
    by (simp add: inference_executor_def fun_eq_iff cong: sum.case_cong)
  have dirs: "log_dir ?a = log_dir a" "data_dir ?a = data_dir a" "results_dir ?a = results_dir a"
    "task_log_dir ?a = task_log_dir a"
    by (simp_all add: log_dir_def data_dir_def results_dir_def task_log_dir_def fun_eq_iff)
  have cmds: "data_gen_cmd Wd ?a = data_gen_cmd Wd a" "task_gen_cmd ?a = task_gen_cmd a"
    by (simp_all add: data_gen_cmd_def task_gen_cmd_def dirs fun_eq_iff)
  have et: "evaluate_task Wd ?a = evaluate_task Wd a"
    by (simp add: evaluate_task_def dirs cmds fun_eq_iff cong: option.case_cong)
  have tl: "\<And>pregen sw ex s ts fx. tasks_loop Wd ?a pregen sw ex s ts fx
      = tasks_loop Wd a pregen sw ex s ts fx"
  proof -
    fix pregen sw ex s ts fx
    show "tasks_loop Wd ?a pregen sw ex s ts fx = tasks_loop Wd a pregen sw ex s ts fx"
      by (induction ts arbitrary: fx) (simp_all add: et)
  qed
  have sch: "\<And>pregen sw s st. schedule_seq_length Wd ?a pregen sw s st
      = schedule_seq_length Wd a pregen sw s st"
    by (simp add: schedule_seq_length_def sk ie dirs tl skip_message_def
        cong: prod.case_cong sum.case_cong if_cong)
  have sl: "\<And>pregen sw ss st. seq_lengths_loop Wd ?a pregen sw ss st
      = seq_lengths_loop Wd a pregen sw ss st"
  proof -
    fix pregen sw ss st
    show "seq_lengths_loop Wd ?a pregen sw ss st = seq_lengths_loop Wd a pregen sw ss st"
      by (induction ss arbitrary: st)
         (simp_all add: sch cong: prod.case_cong option.case_cong)
  qed
  show ?thesis
    using seq_lengths_loop_filter [of Wd a _ _ "seq_lengths a" out fx out]
    by (simp add: main_def sl Let_def split: option.splits)
qed

subsection \<open>The command files a run writes\<close>

lemma job_record_mono:
  assumes "job_record Wd a sw s task fx p cmd" and "set fx \<subseteq> set fx'"
  shows "job_record Wd a sw s task fx' p cmd"
  using assms unfolding job_record_def by blast

lemma evaluate_task_effects:
  "\<exists>pre f. evaluate_task Wd a pregen sw ex s task fx
      = fx @ pre @ submit_job Wd (task_gen_cmd a ex f s task sw) (task_log_dir a s task)
                     ''generate_predictions.sh''
    \<and> (pre = [] \<or> pre = submit_job Wd (data_gen_cmd Wd a s task) (task_log_dir a s task)
                           ''data_generation.sh'')"
  by (auto simp: evaluate_task_def Let_def split: option.splits)

lemma evaluate_task_mono: "set fx \<subseteq> set (evaluate_task Wd a pregen sw ex s task fx)"
  using evaluate_task_effects [of Wd a pregen sw ex s task fx] by auto

lemma tasks_loop_mono: "set fx \<subseteq> set (tasks_loop Wd a pregen sw ex s ts fx)"
proof (induction ts arbitrary: fx)
  case Nil
  show ?case by simp
next
  case (Cons t ts)
  from evaluate_task_mono Cons [of "evaluate_task Wd a pregen sw ex s t fx"]
  show ?case by (simp del: evaluate_task_def) blast
qed

lemma evaluate_task_writes:
  assumes w: "Write_file p cmd \<in> set (evaluate_task Wd a pregen sw ex s task fx)"
    and ex: "inference_executor a s = Inr ex"
  shows "Write_file p cmd \<in> set fx
         \<or> job_record Wd a sw s task (evaluate_task Wd a pregen sw ex s task fx) p cmd"
proof -
  from evaluate_task_effects [of Wd a pregen sw ex s task fx] obtain pre f where
    eq: "evaluate_task Wd a pregen sw ex s task fx
      = fx @ pre @ submit_job Wd (task_gen_cmd a ex f s task sw) (task_log_dir a s task)
                     ''generate_predictions.sh''" and
    pre: "pre = [] \<or> pre = submit_job Wd (data_gen_cmd Wd a s task) (task_log_dir a s task)
                           ''data_generation.sh''" by blast
  from w eq consider "Write_file p cmd \<in> set fx" | "Write_file p cmd \<in> set pre"
    | "Write_file p cmd \<in> set (submit_job Wd (task_gen_cmd a ex f s task sw)
          (task_log_dir a s task) ''generate_predictions.sh'')" by auto
  then show ?thesis
  proof cases
    case 1
    then show ?thesis by simp
  next
    case 2
    with pre have "p = os_path_join (task_log_dir a s task) ''data_generation.sh''
        \<and> cmd = data_gen_cmd Wd a s task"
      by (auto simp: submit_job_def)
    then show ?thesis by (simp add: job_record_def)
  next
    case 3
    then have "p = os_path_join (task_log_dir a s task) ''generate_predictions.sh''"
      and "cmd = task_gen_cmd a ex f s task sw" by (auto simp: submit_job_def)
    moreover have "System (''cd '' @ BASE_DIR Wd @ ''; '' @ task_gen_cmd a ex f s task sw)
        \<in> set (evaluate_task Wd a pregen sw ex s task fx)"
      unfolding eq by (simp add: submit_job_def)
    ultimately show ?thesis using ex unfolding job_record_def by blast
  qed
qed

lemma tasks_loop_writes:
  assumes "Write_file p cmd \<in> set (tasks_loop Wd a pregen sw ex s ts fx)"
    and ex: "inference_executor a s = Inr ex"
  shows "Write_file p cmd \<in> set fx
         \<or> (\<exists>task \<in> set ts. job_record Wd a sw s task (tasks_loop Wd a pregen sw ex s ts fx) p cmd)"
  using assms(1)
proof (induction ts arbitrary: fx)
  case Nil
  then show ?case by simp
next
  case (Cons t ts)
  let ?fx1 = "evaluate_task Wd a pregen sw ex s t fx"
  let ?fin = "tasks_loop Wd a pregen sw ex s (t # ts) fx"
  have fin: "?fin = tasks_loop Wd a pregen sw ex s ts ?fx1" by simp
  from Cons.prems have "Write_file p cmd \<in> set (tasks_loop Wd a pregen sw ex s ts ?fx1)"
    by simp
  from Cons.IH [OF this] show ?case
  proof
    assume "Write_file p cmd \<in> set ?fx1"
    from evaluate_task_writes [OF this ex] show ?thesis
    proof
      assume "Write_file p cmd \<in> set fx"
      then show ?thesis by simp
    next
      assume "job_record Wd a sw s t ?fx1 p cmd"
      from job_record_mono [OF this tasks_loop_mono [of ?fx1 Wd a pregen sw ex s ts]]
      have "job_record Wd a sw s t ?fin p cmd" by (simp only: fin)
      then show ?thesis by auto
    qed
  next
    assume "\<exists>task \<in> set ts. job_record Wd a sw s task
              (tasks_loop Wd a pregen sw ex s ts ?fx1) p cmd"
    then show ?thesis by (auto simp only: fin list.set)
  qed
qed

lemma schedule_mono:
  assumes "schedule_seq_length Wd a pregen sw s (out, fx) = (e, out', fx')"
  shows "set fx \<subseteq> set fx'"
proof -
  have "\<And>ex. set fx \<subseteq> set (tasks_loop Wd a pregen sw ex s (tasks a)
      (fx @ [Makedirs (log_dir a s), Makedirs (data_dir a s)]))"
    using tasks_loop_mono [of "fx @ [Makedirs (log_dir a s), Makedirs (data_dir a s)]"] by auto
  with assms show ?thesis
    by (auto simp: schedule_seq_length_def split: if_splits sum.splits)
qed

lemma schedule_writes:
  assumes run: "schedule_seq_length Wd a pregen sw s (out, fx) = (e, out', fx')"
    and w: "Write_file p cmd \<in> set fx'"
  shows "Write_file p cmd \<in> set fx
         \<or> (\<not> skipped a s \<and> (\<exists>task \<in> set (tasks a). job_record Wd a sw s task fx' p cmd))"
proof (cases "skipped a s")
  case True
  with run w show ?thesis by (simp add: schedule_seq_length_def)
next
  case False
  show ?thesis
  proof (cases "inference_executor a s")
    case (Inl err)
    with False run w show ?thesis by (simp add: schedule_seq_length_def)
  next
    case (Inr ex)
    let ?fx0 = "fx @ [Makedirs (log_dir a s), Makedirs (data_dir a s)]"
    from False Inr run have fx': "fx' = tasks_loop Wd a pregen sw ex s (tasks a) ?fx0"
      by (simp add: schedule_seq_length_def)
    from tasks_loop_writes [OF w [unfolded fx'] Inr] False show ?thesis
      unfolding fx' by auto
  qed
qed

lemma seq_lengths_loop_mono:
  assumes "seq_lengths_loop Wd a pregen sw ss (out, fx) = (e, out', fx')"
  shows "set fx \<subseteq> set fx'"
  using assms
proof (induction ss arbitrary: out fx)
  case Nil
  then show ?case by simp
next
  case (Cons s ss)
  obtain e1 o1 f1 where 1: "schedule_seq_length Wd a pregen sw s (out, fx) = (e1, o1, f1)"
    by (cases "schedule_seq_length Wd a pregen sw s (out, fx)") auto
  from schedule_mono [OF 1] have le: "set fx \<subseteq> set f1" .
  show ?case
  proof (cases e1)
    case None
    with Cons.prems 1 have "seq_lengths_loop Wd a pregen sw ss (o1, f1) = (e, out', fx')"
      by simp
    from Cons.IH [OF this] le show ?thesis by blast
  next
    case (Some err)
    with Cons.prems 1 le show ?thesis by simp
  qed
qed

lemma seq_lengths_loop_writes:
  assumes "seq_lengths_loop Wd a pregen sw ss (out, fx) = (e, out', fx')"
    and "Write_file p cmd \<in> set fx'"
  shows "Write_file p cmd \<in> set fx
         \<or> (\<exists>s \<in> set ss. \<not> skipped a s
              \<and> (\<exists>task \<in> set (tasks a). job_record Wd a sw s task fx' p cmd))"
  using assms
proof (induction ss arbitrary: out fx)
  case Nil
  then show ?case by simp
next
  case (Cons s ss)
  obtain e1 o1 f1 where 1: "schedule_seq_length Wd a pregen sw s (out, fx) = (e1, o1, f1)"
    by (cases "schedule_seq_length Wd a pregen sw s (out, fx)") auto
  show ?case
  proof (cases e1)
    case (Some err)
    with Cons.prems 1 have "fx' = f1" by simp
    with schedule_writes [OF 1] Cons.prems(2) show ?thesis by auto
  next
    case None
    with Cons.prems 1 have rest: "seq_lengths_loop Wd a pregen sw ss (o1, f1) = (e, out', fx')"
      by simp
    from Cons.IH [OF rest Cons.prems(2)] show ?thesis
    proof
      assume "Write_file p cmd \<in> set f1"
      from schedule_writes [OF 1 this] show ?thesis
      proof
        assume "Write_file p cmd \<in> set fx"
        then show ?thesis by simp
      next
        assume A: "\<not> skipped a s
          \<and> (\<exists>task \<in> set (tasks a). job_record Wd a sw s task f1 p cmd)"
        then obtain task where t: "task \<in> set (tasks a)"
          and j: "job_record Wd a sw s task f1 p cmd" by blast
        from job_record_mono [OF j seq_lengths_loop_mono [OF rest]]
        have "job_record Wd a sw s task fx' p cmd" .
        with A t show ?thesis by auto
      qed
    next
      assume "\<exists>s \<in> set ss. \<not> skipped a s
              \<and> (\<exists>task \<in> set (tasks a). job_record Wd a sw s task fx' p cmd)"
      then show ?thesis by auto
    qed
  qed
qed

lemma main_writes:
  assumes "main Wd a (out, fx) = (e, out', fx')" and "Write_file p cmd \<in> set fx'"
  shows "Write_file p cmd \<in> set fx
         \<or> (\<exists>stop_words s task.
               PROMPT_TEMPLATES Wd (prompt_config a) = Some stop_words
               \<and> \<not> (sublist ''star'' (attn_type a) \<and> block_size a < anchor_block_size a)
               \<and> s \<in> set (seq_lengths a) \<and> \<not> skipped a s \<and> task \<in> set (tasks a)
               \<and> job_record Wd a (join '','' stop_words) s task fx' p cmd)"
proof (cases "sublist ''star'' (attn_type a) \<and> \<not> block_size a \<ge> anchor_block_size a")
  case True
  with assms show ?thesis by (simp add: main_def)
next
  case False
  show ?thesis
  proof (cases "PROMPT_TEMPLATES Wd (prompt_config a)")
    case None
    with False assms show ?thesis by (auto simp: main_def Let_def split: if_splits)
  next
    case (Some stop_words)
    with False assms(1) obtain pregen where
      "seq_lengths_loop Wd a pregen (join '','' stop_words) (seq_lengths a) (out, fx)
       = (e, out', fx')"
      by (auto simp: main_def Let_def split: if_splits)
    from seq_lengths_loop_writes [OF this assms(2)] Some False show ?thesis by auto
  qed
qed

subsection \<open>The inference command\<close>

lemma os_path_join_suffix: "suffix b (os_path_join a b)"
  by (auto simp: os_path_join_def suffix_def split: list.splits)

lemma inference_record_not_data_generation:
  assumes "suffix ''generate_predictions.sh'' p"
  shows "p \<noteq> os_path_join d ''data_generation.sh''"
proof
  assume "p = os_path_join d ''data_generation.sh''"
  with os_path_join_suffix [of "''data_generation.sh''" d]
  have "suffix ''data_generation.sh'' p" by simp
  from suffix_same_cases [OF assms this] show False
    by (simp add: suffix_to_prefix)
qed

lemma main_arguments_simps [simp]:
  "attn_type (main_arguments a) = attn_type a"
  "block_size (main_arguments a) = block_size a"
  "anchor_block_size (main_arguments a) = anchor_block_size a"
  "seq_lengths (main_arguments a) = seq_lengths a"
  "tasks (main_arguments a) = tasks a"
  "num_nodes (main_arguments a) = num_nodes a"
  "nproc_per_node (main_arguments a) = nproc_per_node a"
  "model_path (main_arguments a) = model_path a"
  "prompt_config (main_arguments a) = prompt_config a"
  by (simp_all add: main_arguments_def)

lemma skipped_main_arguments [simp]: "skipped (main_arguments a) s = skipped a s"
  by (simp add: skipped_def)

lemma inference_executor_main_arguments [simp]:
  "inference_executor (main_arguments a) s = inference_executor a s"
  by (simp add: inference_executor_def cong: sum.case_cong)

lemma script_inference_record:
  assumes run: "script Wd a = (e, out, fx)"
    and w: "Write_file p cmd \<in> set fx"
    and gp: "suffix ''generate_predictions.sh'' p"
  shows "\<exists>stop_words s task executor input_path.
           (sublist ''star'' (attn_type a) \<longrightarrow> 0 < block_size a
              \<and> anchor_block_size a \<le> block_size a)
           \<and> (attn_type a \<noteq> ''dense'' \<longrightarrow> (\<exists>n. nproc_per_node a = Some n \<and> 0 < n))
           \<and> s \<in> set (seq_lengths a) \<and> \<not> skipped a s \<and> task \<in> set (tasks a)
           \<and> inference_executor a s = Inr executor
           \<and> cmd = task_gen_cmd (main_arguments a) executor input_path s task stop_words
           \<and> System (''cd '' @ BASE_DIR Wd @ ''; '' @ cmd) \<in> set fx"
proof -
  from w have ne: "fx \<noteq> []" by auto
  from run ne have star: "sublist ''star'' (attn_type a) \<longrightarrow> 0 < block_size a"
    and np: "attn_type a \<noteq> ''dense'' \<longrightarrow> (\<exists>n. nproc_per_node a = Some n \<and> 0 < n)"
    and m: "main Wd (main_arguments a) ([], []) = (e, out, fx)"
    by (auto simp: script_def split: if_splits option.splits)
  from main_writes [OF m w] obtain stop_words s task where
    ord: "\<not> (sublist ''star'' (attn_type a) \<and> block_size a < anchor_block_size a)" and
    s: "s \<in> set (seq_lengths a)" "\<not> skipped a s" "task \<in> set (tasks a)" and
    j: "job_record Wd (main_arguments a) (join '','' stop_words) s task fx p cmd"
    by auto
  from j inference_record_not_data_generation [OF gp] obtain executor input_path where
    "inference_executor a s = Inr executor"
    "cmd = task_gen_cmd (main_arguments a) executor input_path s task (join '','' stop_words)"
    "System (''cd '' @ BASE_DIR Wd @ ''; '' @ cmd) \<in> set fx"
    unfolding job_record_def by auto
  with star np ord s show ?thesis by (intro exI conjI) auto
qed

lemma seq_length_repr_nonneg:
  assumes "seq_length_repr s \<in> set SPLIT_NAMES"
  shows "0 \<le> s"
proof (rule ccontr)
  assume "\<not> 0 \<le> s"
  then have "s div 1024 < 0" by simp
  then have "seq_length_repr s = CHR ''-'' # str_nat (nat (- (s div 1024))) @ ''k''"
    by (simp add: seq_length_repr_def str_def)
  with assms show False by (auto simp: SPLIT_NAMES_def)
qed

lemma script_seq_lengths_valid:
  assumes "script Wd a = (e, out, fx)" and "fx \<noteq> []"
  shows "\<forall>s \<in> set (seq_lengths a). seq_length_repr s \<in> set SPLIT_NAMES"
  using assms by (auto simp: script_def list_all_iff split: if_splits)

text \<open>
  The process count of the inference commands. Every inference command file a run of the
  script writes with an attention type other than \<open>dense\<close> belongs to a sequence length \<open>s\<close>
  of the sweep, and its command starts the processes with \<open>--nproc_per_node=n\<close> where
  \<open>n = min(nproc_per_node, s // block_size)\<close>; so \<open>n\<close> is never above \<open>nproc_per_node\<close>. When
  the attention type contains \<open>star\<close>, \<open>n\<close> is not negative, and it is at least 1 exactly
  when \<open>block_size <= s\<close>, which a non-negative \<open>anchor_block_size\<close> ensures.
\<close>

lemma process_count_of_dispatched_job:
  assumes "script Wd a = (e, out, fx)"
    and "Write_file p cmd \<in> set fx"
    and "suffix ''generate_predictions.sh'' p"
    and "attn_type a \<noteq> ''dense''"
  shows "\<exists>s ceiling n.
           s \<in> set (seq_lengths a) \<and> nproc_per_node a = Some ceiling
           \<and> nproc_per_node_seq_len (nproc_per_node a) s (block_size a) = Inr n
           \<and> prefix (''torchrun --nnodes='' @ str (num_nodes a) @ '' --nproc_per_node=''
                       @ str n @ '' run_star_attn_inference.py '') cmd
           \<and> n = min ceiling (s div block_size a)
           \<and> n \<le> ceiling
           \<and> (sublist ''star'' (attn_type a) \<longrightarrow> 0 \<le> n \<and> (1 \<le> n \<longleftrightarrow> block_size a \<le> s))
           \<and> (sublist ''star'' (attn_type a) \<and> 0 \<le> anchor_block_size a \<longrightarrow> 1 \<le> n)"
proof -
  from script_inference_record [OF assms(1-3)] assms(4)
  obtain stop_words s task executor input_path ceiling where
    star: "sublist ''star'' (attn_type a) \<longrightarrow> 0 < block_size a
             \<and> anchor_block_size a \<le> block_size a" and
    c: "nproc_per_node a = Some ceiling" "0 < ceiling" and
    s: "s \<in> set (seq_lengths a)" "\<not> skipped a s" and
    ex: "inference_executor a s = Inr executor" and
    cmd: "cmd = task_gen_cmd (main_arguments a) executor input_path s task stop_words"
    by auto
  from assms(2) have "fx \<noteq> []" by auto
  from script_seq_lengths_valid [OF assms(1) this] s(1)
  have s0: "0 \<le> s" by (auto intro: seq_length_repr_nonneg)
  from ex assms(4) c(1) obtain n where
    n: "nproc_per_node_seq_len (nproc_per_node a) s (block_size a) = Inr n" and
    executor: "executor = ''torchrun --nnodes='' @ str (num_nodes a) @ '' --nproc_per_node=''
                 @ str n"
    by (auto simp: inference_executor_def split: sum.splits)
  from n c(1) have nz: "block_size a \<noteq> 0" and n_eq: "n = min ceiling (s div block_size a)"
    by (auto simp: nproc_per_node_seq_len_def split: if_splits)
  have pre: "prefix (''torchrun --nnodes='' @ str (num_nodes a) @ '' --nproc_per_node=''
                       @ str n @ '' run_star_attn_inference.py '') cmd"
    unfolding cmd executor task_gen_cmd_def by (simp add: prefix_def)
  have bound: "sublist ''star'' (attn_type a) \<longrightarrow>
      0 \<le> n \<and> (1 \<le> n \<longleftrightarrow> block_size a \<le> s)"
  proof
    assume st: "sublist ''star'' (attn_type a)"
    with star have b: "0 < block_size a" by simp
    from b s0 have d0: "0 \<le> s div block_size a" by (simp add: pos_imp_zdiv_nonneg_iff)
    from b have d1: "0 < s div block_size a \<longleftrightarrow> block_size a \<le> s"
      by (simp add: pos_imp_zdiv_pos_iff)
    from c(2) d0 have "0 \<le> n" by (simp add: n_eq)
    moreover from c(2) d1 have "1 \<le> n \<longleftrightarrow> block_size a \<le> s" by (auto simp: n_eq)
    ultimately show "0 \<le> n \<and> (1 \<le> n \<longleftrightarrow> block_size a \<le> s)" by simp
  qed
  have low: "sublist ''star'' (attn_type a) \<and> 0 \<le> anchor_block_size a \<longrightarrow> 1 \<le> n"
  proof (intro impI, elim conjE)
    assume st: "sublist ''star'' (attn_type a)" and an: "0 \<le> anchor_block_size a"
    from st s(2) have "block_size a + anchor_block_size a \<le> s" by (simp add: skipped_def)
    with an have "block_size a \<le> s" by simp
    with bound st show "1 \<le> n" by simp
  qed
  from s(1) c(1) n pre n_eq bound low show ?thesis by (intro exI conjI) auto
qed

text \<open>
  Claim C9. In every inference command file a run of the script writes, the output path is
  followed by \<open>--stop_words\<close> with no space between them: the command contains
  \<open>--output_path <results>/<task>.jsonl--stop_words \<close>, and this same command is the one run.
\<close>

theorem output_path_runs_into_stop_words:
  assumes "script Wd a = (e, out, fx)"
    and "Write_file p cmd \<in> set fx"
    and "suffix ''generate_predictions.sh'' p"
  shows "\<exists>s task.
           s \<in> set (seq_lengths a) \<and> task \<in> set (tasks a)
           \<and> sublist (''--output_path '' @ os_path_join (results_dir (main_arguments a) s) task
                       @ ''.jsonl--stop_words '') cmd
           \<and> System (''cd '' @ BASE_DIR Wd @ ''; '' @ cmd) \<in> set fx"
proof -
  from script_inference_record [OF assms]
  obtain stop_words s task executor input_path where
    s: "s \<in> set (seq_lengths a)" "task \<in> set (tasks a)" and
    cmd: "cmd = task_gen_cmd (main_arguments a) executor input_path s task stop_words" and
    sys: "System (''cd '' @ BASE_DIR Wd @ ''; '' @ cmd) \<in> set fx"
    by blast
  let ?a = "main_arguments a"
  let ?before = "executor @ '' run_star_attn_inference.py ''
     @ ''--model_path '' @ model_path ?a @ '' ''
     @ ''--attn_type '' @ attn_type ?a @ '' ''
     @ ''--block_size '' @ str (block_size ?a) @ '' ''
     @ ''--anchor_block_size '' @ str (anchor_block_size ?a) @ '' ''
     @ ''--tokens_to_generate 128 ''
     @ ''--input_path '' @ input_path @ '' ''"
  have "cmd = ?before @ (''--output_path '' @ os_path_join (results_dir ?a s) task
                       @ ''.jsonl--stop_words '') @ stop_words"
    unfolding cmd task_gen_cmd_def by simp
  then have "sublist (''--output_path '' @ os_path_join (results_dir ?a s) task
                       @ ''.jsonl--stop_words '') cmd"
    unfolding sublist_def by blast
  with s sys show ?thesis by blast
qed

text \<open>
  Claim C4. When the attention type contains \<open>star\<close> and
  \<open>block_size + anchor_block_size > seq_length\<close>, the sequence length is skipped: a message is
  printed, nothing is created, written or run for it, and no exception is raised. So what a
  star attention sweep does, and the exception it ends with if any, are those of the sweep
  over the sequence lengths that are not skipped. When the attention type does not contain
  \<open>star\<close>, no sequence length is skipped, whatever the block sizes: its directories are
  created and its tasks are run (or the executor raises).
\<close>

theorem star_skip_excludes_sequence_length:
  "(sublist ''star'' (attn_type a) \<and> block_size a + anchor_block_size a > s \<longrightarrow>
      schedule_seq_length Wd a pregen stop_words s (out, fx)
        = (None, out @ [skip_message a s], fx))
   \<and> (sublist ''star'' (attn_type a) \<longrightarrow>
        fst (main Wd a (out, fx))
          = fst (main Wd
                  (a\<lparr>seq_lengths :=
                       filter (\<lambda>s. block_size a + anchor_block_size a \<le> s) (seq_lengths a)\<rparr>)
                  (out, fx))
        \<and> snd (snd (main Wd a (out, fx)))
          = snd (snd (main Wd
                  (a\<lparr>seq_lengths :=
                       filter (\<lambda>s. block_size a + anchor_block_size a \<le> s) (seq_lengths a)\<rparr>)
                  (out, fx))))
   \<and> (\<not> sublist ''star'' (attn_type a) \<longrightarrow>
        \<not> skipped a s
        \<and> schedule_seq_length Wd a pregen stop_words s (out, fx)
          = (case inference_executor a s of
               Inl e \<Rightarrow> (Some e, out, fx)
             | Inr executor \<Rightarrow>
                 (None, out,
                  tasks_loop Wd a pregen stop_words executor s (tasks a)
                    (fx @ [Makedirs (log_dir a s), Makedirs (data_dir a s)]))))"
proof -
  have 1: "sublist ''star'' (attn_type a) \<and> block_size a + anchor_block_size a > s \<longrightarrow>
      schedule_seq_length Wd a pregen stop_words s (out, fx)
        = (None, out @ [skip_message a s], fx)"
  proof
    assume "sublist ''star'' (attn_type a) \<and> block_size a + anchor_block_size a > s"
    then have "skipped a s" by (simp add: skipped_def)
    then show "schedule_seq_length Wd a pregen stop_words s (out, fx)
        = (None, out @ [skip_message a s], fx)" by (rule schedule_skipped)
  qed
  have 2: "sublist ''star'' (attn_type a) \<longrightarrow>
        fst (main Wd a (out, fx))
          = fst (main Wd
                  (a\<lparr>seq_lengths :=
                       filter (\<lambda>s. block_size a + anchor_block_size a \<le> s) (seq_lengths a)\<rparr>)
                  (out, fx))
        \<and> snd (snd (main Wd a (out, fx)))
          = snd (snd (main Wd
                  (a\<lparr>seq_lengths :=
                       filter (\<lambda>s. block_size a + anchor_block_size a \<le> s) (seq_lengths a)\<rparr>)
                  (out, fx)))"
  proof
    assume st: "sublist ''star'' (attn_type a)"
    then have "(\<lambda>s. \<not> skipped a s) = (\<lambda>s. block_size a + anchor_block_size a \<le> s)"
      by (auto simp: skipped_def fun_eq_iff)
    with main_filter [of Wd a out fx]
    show "fst (main Wd a (out, fx))
          = fst (main Wd
                  (a\<lparr>seq_lengths :=
                       filter (\<lambda>s. block_size a + anchor_block_size a \<le> s) (seq_lengths a)\<rparr>)
                  (out, fx))
        \<and> snd (snd (main Wd a (out, fx)))
          = snd (snd (main Wd
                  (a\<lparr>seq_lengths :=
                       filter (\<lambda>s. block_size a + anchor_block_size a \<le> s) (seq_lengths a)\<rparr>)
                  (out, fx)))" by simp
  qed
  have 3: "\<not> sublist ''star'' (attn_type a) \<longrightarrow>
        \<not> skipped a s
        \<and> schedule_seq_length Wd a pregen stop_words s (out, fx)
          = (case inference_executor a s of
               Inl e \<Rightarrow> (Some e, out, fx)
             | Inr executor \<Rightarrow>
                 (None, out,
                  tasks_loop Wd a pregen stop_words executor s (tasks a)
                    (fx @ [Makedirs (log_dir a s), Makedirs (data_dir a s)])))"
    by (simp add: skipped_def schedule_seq_length_def)
  from 1 2 3 show ?thesis by (intro conjI)
qed

text \<open>
  The checks of the configuration, each made before anything is created, written or run:
  when the name \<open>f'{seq_length // 1024}k'\<close> of a sequence length is not in \<open>SPLIT_NAMES\<close>, or
  \<open>block_size <= 0\<close> for star attention, or \<open>nproc_per_node\<close> is missing or not positive or
  \<open>num_nodes\<close> is not positive for an attention type other than \<open>dense\<close>, or the model path
  does not exist, or \<open>anchor_block_size > block_size\<close> for star attention, the script ends
  with an exception (\<open>AssertionError\<close>, or \<open>FileNotFoundError\<close> for the model path) having
  printed nothing and done nothing.
\<close>

lemma validation_aborts_before_dispatch:
  assumes "(\<exists>s \<in> set (seq_lengths a). seq_length_repr s \<notin> set SPLIT_NAMES)
      \<or> (sublist ''star'' (attn_type a) \<and> block_size a \<le> 0)
      \<or> (attn_type a \<noteq> ''dense''
          \<and> (nproc_per_node a = None \<or> (\<exists>n. nproc_per_node a = Some n \<and> n \<le> 0)
              \<or> num_nodes a \<le> 0))
      \<or> \<not> os_path_exists Wd [] (model_path a)
      \<or> (sublist ''star'' (attn_type a) \<and> anchor_block_size a > block_size a)"
  shows "script Wd a = (Some AssertionError, [], [])
         \<or> script Wd a = (Some FileNotFoundError, [], [])"
  using assms by (rule script_rejects)

subsection \<open>The runs of the concrete sweeps\<close>

lemmas run_babilong_eval =
  script_def main_def main_arguments_def model_name_suffix_def size_repr_def
  schedule_seq_length_def skipped_def inference_executor_def nproc_per_node_seq_len_def
  evaluate_task_def pregen_file_def submit_job_def data_gen_cmd_def task_gen_cmd_def
  results_dir_def log_dir_def data_dir_def task_log_dir_def seq_length_repr_def
  SPLIT_NAMES_def os_path_join_def skip_message_def str_def str_nat.simps sublist_code
  Let_def Wd0_def star_args_def

lemma script_star_run:
  "script Wd0 star_args = (None, [],
  [Makedirs ''/repo/results/llama_star_b4ka4k/16k/logs'',
   Makedirs ''/repo/results/llama_star_b4ka4k/16k/data'',
   Makedirs ''/repo/results/llama_star_b4ka4k/16k/logs/qa1'',
   Write_file
    ''/repo/results/llama_star_b4ka4k/16k/logs/qa1/data_generation.sh''
    ''python babilong/prepare_data.py --download_dir /repo/dataset/babilong --output_dir /repo/results/llama_star_b4ka4k/16k/data --tasks qa1 --split_names 16k --model_template_type llama '',
   System
    ''cd /repo; python babilong/prepare_data.py --download_dir /repo/dataset/babilong --output_dir /repo/results/llama_star_b4ka4k/16k/data --tasks qa1 --split_names 16k --model_template_type llama '',
   Makedirs ''/repo/results/llama_star_b4ka4k/16k/logs/qa1'',
   Write_file
    ''/repo/results/llama_star_b4ka4k/16k/logs/qa1/generate_predictions.sh''
    ''torchrun --nnodes=1 --nproc_per_node=4 run_star_attn_inference.py --model_path /models/llama --attn_type star --block_size 4096 --anchor_block_size 4096 --tokens_to_generate 128 --input_path /repo/results/llama_star_b4ka4k/16k/data/qa1_16k.jsonl --output_path /repo/results/llama_star_b4ka4k/16k/qa1.jsonl--stop_words </s>'',
   System
    ''cd /repo; torchrun --nnodes=1 --nproc_per_node=4 run_star_attn_inference.py --model_path /models/llama --attn_type star --block_size 4096 --anchor_block_size 4096 --tokens_to_generate 128 --input_path /repo/results/llama_star_b4ka4k/16k/data/qa1_16k.jsonl --output_path /repo/results/llama_star_b4ka4k/16k/qa1.jsonl--stop_words </s>''])"
  by (simp add: run_babilong_eval)

text \<open>
  Claim C3. The process count of an inference job is to be at least 1, and the script
  itself asserts \<open>nproc_per_node > 0\<close>. Two runs in which the count computed is not: with
  ring attention and the default \<open>block_size = -1\<close> (which is checked for star attention
  only) the command written and run asks for \<open>min(8, 16384 // -1) = -16384\<close> processes; and
  with star attention, the default \<open>anchor_block_size = -1\<close> and \<open>block_size = 16385\<close> the
  sequence length 16384 is not skipped and the command run asks for
  \<open>min(8, 16384 // 16385) = 0\<close> processes.
\<close>

theorem process_count_not_positive:
  "script Wd0 (star_args\<lparr>attn_type := ''ring'', block_size := - 1, anchor_block_size := - 1\<rparr>)
     = (None, [],
  [Makedirs ''/repo/results/llama_ring/16k/logs'',
   Makedirs ''/repo/results/llama_ring/16k/data'',
   Makedirs ''/repo/results/llama_ring/16k/logs/qa1'',
   Write_file
    ''/repo/results/llama_ring/16k/logs/qa1/data_generation.sh''
    ''python babilong/prepare_data.py --download_dir /repo/dataset/babilong --output_dir /repo/results/llama_ring/16k/data --tasks qa1 --split_names 16k --model_template_type llama '',
   System
    ''cd /repo; python babilong/prepare_data.py --download_dir /repo/dataset/babilong --output_dir /repo/results/llama_ring/16k/data --tasks qa1 --split_names 16k --model_template_type llama '',
   Makedirs ''/repo/results/llama_ring/16k/logs/qa1'',
   Write_file
    ''/repo/results/llama_ring/16k/logs/qa1/generate_predictions.sh''
    ''torchrun --nnodes=1 --nproc_per_node=-16384 run_star_attn_inference.py --model_path /models/llama --attn_type ring --block_size -1 --anchor_block_size -1 --tokens_to_generate 128 --input_path /repo/results/llama_ring/16k/data/qa1_16k.jsonl --output_path /repo/results/llama_ring/16k/qa1.jsonl--stop_words </s>'',
   System
    ''cd /repo; torchrun --nnodes=1 --nproc_per_node=-16384 run_star_attn_inference.py --model_path /models/llama --attn_type ring --block_size -1 --anchor_block_size -1 --tokens_to_generate 128 --input_path /repo/results/llama_ring/16k/data/qa1_16k.jsonl --output_path /repo/results/llama_ring/16k/qa1.jsonl--stop_words </s>''])
   \<and> nproc_per_node_seq_len (Some 8) 16384 (- 1) = Inr (- 16384)
   \<and> System
    ''cd /repo; torchrun --nnodes=1 --nproc_per_node=0 run_star_attn_inference.py --model_path /models/llama --attn_type star --block_size 16385 --anchor_block_size -1 --tokens_to_generate 128 --input_path /repo/results/llama_star_b16ka16k/16k/data/qa1_16k.jsonl --output_path /repo/results/llama_star_b16ka16k/16k/qa1.jsonl--stop_words </s>''
     \<in> set (snd (snd (script Wd0
            (star_args\<lparr>block_size := 16385, anchor_block_size := - 1\<rparr>))))
   \<and> nproc_per_node_seq_len (Some 8) 16384 16385 = Inr 0"
  by (simp add: run_babilong_eval)

text \<open>
  Dense attention with the same block sizes at the sequence length 16384: the inference
  job is run although \<open>block_size + anchor_block_size\<close> is above the sequence length.
\<close>

theorem dense_not_skipped_counterexample:
  "16384 + 16384 > (16384 :: int)
   \<and> System ''cd /repo; python run_star_attn_inference.py --model_path /models/llama --attn_type dense --block_size 16384 --anchor_block_size 16384 --tokens_to_generate 128 --input_path /repo/results/llama_dense/16k/data/qa1_16k.jsonl --output_path /repo/results/llama_dense/16k/qa1.jsonl--stop_words </s>''
   \<in> set (snd (snd (script Wd0
          (star_args\<lparr>attn_type := ''dense'', block_size := 16384,
                      anchor_block_size := 16384\<rparr>))))"
  by (simp add: run_babilong_eval)

lemma star_record_written:
  "Write_file star_record star_cmd \<in> set (snd (snd (script Wd0 star_args)))"
  by (simp add: script_star_run star_record_def star_cmd_def)

lemma star_record_suffix: "suffix ''generate_predictions.sh'' star_record"
  by (simp add: star_record_def suffix_to_prefix)

text \<open>
  The star attention sweep: 4 = min(8, 16384 // 4096) processes.
\<close>

lemma process_count_of_dispatched_job_witness:
  "Write_file star_record star_cmd \<in> set (snd (snd (script Wd0 star_args)))
   \<and> nproc_per_node_seq_len (nproc_per_node star_args) 16384 (block_size star_args) = Inr 4
   \<and> prefix ''torchrun --nnodes=1 --nproc_per_node=4 run_star_attn_inference.py '' star_cmd
   \<and> (4 :: int) = min 8 (16384 div 4096) \<and> (4 :: int) \<le> 8 \<and> (1 :: int) \<le> 4"
proof -
  have run: "script Wd0 star_args
      = (fst (script Wd0 star_args), fst (snd (script Wd0 star_args)),
         snd (snd (script Wd0 star_args)))" by simp
  have nd: "attn_type star_args \<noteq> ''dense''" by (simp add: star_args_def)
  from process_count_of_dispatched_job [OF run star_record_written star_record_suffix nd]
  obtain s ceiling n where
    s: "s \<in> set (seq_lengths star_args)" and
    c: "nproc_per_node star_args = Some ceiling" and
    n: "nproc_per_node_seq_len (nproc_per_node star_args) s (block_size star_args) = Inr n" and
    pre: "prefix (''torchrun --nnodes='' @ str (num_nodes star_args) @ '' --nproc_per_node=''
                       @ str n @ '' run_star_attn_inference.py '') star_cmd" and
    eq: "n = min ceiling (s div block_size star_args)" and
    le: "n \<le> ceiling" and
    low: "sublist ''star'' (attn_type star_args) \<and> 0 \<le> anchor_block_size star_args
          \<longrightarrow> 1 \<le> n"
    by blast
  from s have s': "s = 16384" by (simp add: star_args_def)
  from c have c': "ceiling = 8" by (simp add: star_args_def)
  from eq s' c' have n': "n = 4" by (simp add: star_args_def)
  from pre n' have "prefix ''torchrun --nnodes=1 --nproc_per_node=4 run_star_attn_inference.py ''
      star_cmd"
    by (simp add: star_args_def str_def str_nat.simps)
  with n s' n' star_record_written show ?thesis by simp
qed

text \<open>
  The command of the star attention sweep.
\<close>

theorem output_path_runs_into_stop_words_witness:
  "Write_file star_record star_cmd \<in> set (snd (snd (script Wd0 star_args)))
   \<and> sublist ''--output_path /repo/results/llama_star_b4ka4k/16k/qa1.jsonl--stop_words ''
        star_cmd
   \<and> System (''cd /repo; '' @ star_cmd) \<in> set (snd (snd (script Wd0 star_args)))"
proof -
  have run: "script Wd0 star_args
      = (fst (script Wd0 star_args), fst (snd (script Wd0 star_args)),
         snd (snd (script Wd0 star_args)))" by simp
  from output_path_runs_into_stop_words [OF run star_record_written star_record_suffix]
  obtain s task where
    s: "s \<in> set (seq_lengths star_args)" and t: "task \<in> set (tasks star_args)" and
    sub: "sublist (''--output_path ''
                   @ os_path_join (results_dir (main_arguments star_args) s) task
                   @ ''.jsonl--stop_words '') star_cmd" and
    sys: "System (''cd '' @ BASE_DIR Wd0 @ ''; '' @ star_cmd)
            \<in> set (snd (snd (script Wd0 star_args)))"
    by blast
  from s have s': "s = 16384" by (simp add: star_args_def)
  from t have t': "task = ''qa1''" by (simp add: star_args_def)
  have path: "''--output_path ''
                   @ os_path_join (results_dir (main_arguments star_args) 16384) ''qa1''
                   @ ''.jsonl--stop_words ''
      = ''--output_path /repo/results/llama_star_b4ka4k/16k/qa1.jsonl--stop_words ''"
    by (simp add: run_babilong_eval)
  from sub have "sublist ''--output_path /repo/results/llama_star_b4ka4k/16k/qa1.jsonl--stop_words ''
        star_cmd"
    unfolding s' t' path .
  moreover from sys have "System (''cd /repo; '' @ star_cmd)
      \<in> set (snd (snd (script Wd0 star_args)))"
    by (simp add: Wd0_def)
  ultimately show ?thesis using star_record_written by simp
qed

text \<open>
  A star attention sweep with both blocks of 16384 tokens over the sequence lengths 16384
  and 32768 does what the sweep over 32768 alone does; with dense attention and the same
  blocks the sequence length 16384 is not skipped.
\<close>

theorem star_skip_excludes_sequence_length_witness:
  "sublist ''star'' (attn_type star_wide_args)
   \<and> block_size star_wide_args + anchor_block_size star_wide_args > 16384
   \<and> schedule_seq_length Wd0 star_wide_args None ''</s>'' 16384 ([], [])
       = (None, [skip_message star_wide_args 16384], [])
   \<and> fst (main Wd0 star_wide_args ([], []))
       = fst (main Wd0 (star_wide_args\<lparr>seq_lengths := [32768]\<rparr>) ([], []))
   \<and> snd (snd (main Wd0 star_wide_args ([], [])))
       = snd (snd (main Wd0 (star_wide_args\<lparr>seq_lengths := [32768]\<rparr>) ([], [])))
   \<and> \<not> sublist ''star'' (attn_type dense_wide_args)
   \<and> inference_executor dense_wide_args 16384 = Inr ''python''
   \<and> schedule_seq_length Wd0 dense_wide_args None ''</s>'' 16384 ([], [])
       = (None, [],
          tasks_loop Wd0 dense_wide_args None ''</s>'' ''python'' 16384 [''qa1'']
            [Makedirs (log_dir dense_wide_args 16384), Makedirs (data_dir dense_wide_args 16384)])"
proof -
  have st: "sublist ''star'' (attn_type star_wide_args)"
    by (simp add: star_wide_args_def star_args_def sublist_code)
  have big: "block_size star_wide_args + anchor_block_size star_wide_args > 16384"
    by (simp add: star_wide_args_def star_args_def)
  have flt: "filter (\<lambda>s. block_size star_wide_args + anchor_block_size star_wide_args \<le> s)
               (seq_lengths star_wide_args) = [32768]"
    by (simp add: star_wide_args_def star_args_def)
  note inst = star_skip_excludes_sequence_length
      [of star_wide_args 16384 Wd0 None "''</s>''" "[]" "[]"]
  from inst st big have 1: "schedule_seq_length Wd0 star_wide_args None ''</s>'' 16384 ([], [])
       = (None, [skip_message star_wide_args 16384], [])" by simp
  from inst st have 2: "fst (main Wd0 star_wide_args ([], []))
       = fst (main Wd0 (star_wide_args\<lparr>seq_lengths := [32768]\<rparr>) ([], []))
   \<and> snd (snd (main Wd0 star_wide_args ([], [])))
       = snd (snd (main Wd0 (star_wide_args\<lparr>seq_lengths := [32768]\<rparr>) ([], [])))"
    unfolding flt by blast
  have ns: "\<not> sublist ''star'' (attn_type dense_wide_args)"
    by (simp add: dense_wide_args_def star_args_def sublist_code)
  have ex: "inference_executor dense_wide_args 16384 = Inr ''python''"
    by (simp add: dense_wide_args_def star_args_def inference_executor_def)
  have ts: "tasks dense_wide_args = [''qa1'']"
    by (simp add: dense_wide_args_def star_args_def)
  note inst2 = star_skip_excludes_sequence_length
      [of dense_wide_args 16384 Wd0 None "''</s>''" "[]" "[]"]
  from inst2 ns have 3: "schedule_seq_length Wd0 dense_wide_args None ''</s>'' 16384 ([], [])
       = (None, [],
          tasks_loop Wd0 dense_wide_args None ''</s>'' ''python'' 16384 [''qa1'']
            [Makedirs (log_dir dense_wide_args 16384), Makedirs (data_dir dense_wide_args 16384)])"
    by (simp add: ex ts)
  from st big 1 2 ns ex 3 show ?thesis by blast
qed

text \<open>
  Star attention with the sequence length 16384, \<open>block_size = 4096\<close> and
  \<open>anchor_block_size = 8192\<close> is rejected by the assertion of \<open>main\<close>.
\<close>

lemma validation_aborts_before_dispatch_witness:
  "sublist ''star'' (attn_type star_bad_anchor_args)
   \<and> anchor_block_size star_bad_anchor_args > block_size star_bad_anchor_args
   \<and> seq_lengths star_bad_anchor_args = [16384]
   \<and> block_size star_bad_anchor_args = 4096 \<and> anchor_block_size star_bad_anchor_args = 8192
   \<and> script Wd0 star_bad_anchor_args = (Some AssertionError, [], [])"
proof -
  have st: "sublist ''star'' (attn_type star_bad_anchor_args)"
    by (simp add: star_bad_anchor_args_def star_args_def sublist_code)
  have bad: "anchor_block_size star_bad_anchor_args > block_size star_bad_anchor_args"
    by (simp add: star_bad_anchor_args_def star_args_def)
  have ex: "os_path_exists Wd0 [] (model_path star_bad_anchor_args)"
    by (simp add: star_bad_anchor_args_def star_args_def Wd0_def)
  have nf: "script Wd0 star_bad_anchor_args \<noteq> (Some FileNotFoundError, [], [])"
    using ex st bad by (auto simp: script_def main_def split: if_splits)
  from st bad have "script Wd0 star_bad_anchor_args = (Some AssertionError, [], [])
         \<or> script Wd0 star_bad_anchor_args = (Some FileNotFoundError, [], [])"
    by (intro validation_aborts_before_dispatch) blast
  with nf have "script Wd0 star_bad_anchor_args = (Some AssertionError, [], [])" by blast
  with st bad show ?thesis by (simp add: star_bad_anchor_args_def star_args_def)
qed

text \<open>
  Claim C8. A sequence length outside the supported sizes is to abort the run before
  anything is dispatched, and the message of the assertion says so (\<open>seq_length must be one
  of ['16k', '32k', '64k', '128k']\<close>). The test is on \<open>f'{seq_length // 1024}k'\<close>: the sequence
  length 17000 is none of the four sizes, its name is \<open>16k\<close>, the assertion passes, and the
  sweep is written and run as the one for 16384 is.
\<close>

theorem unsupported_seq_length_dispatched:
  "seq_length_repr 17000 = ''16k''
   \<and> script Wd0 (star_args\<lparr>seq_lengths := [17000]\<rparr>) = script Wd0 star_args
   \<and> fst (script Wd0 (star_args\<lparr>seq_lengths := [17000]\<rparr>)) = None
   \<and> System (''cd /repo; '' @ star_cmd)
        \<in> set (snd (snd (script Wd0 (star_args\<lparr>seq_lengths := [17000]\<rparr>))))"
proof -
  have "script Wd0 (star_args\<lparr>seq_lengths := [17000]\<rparr>) = script Wd0 star_args"
    unfolding script_star_run by (simp add: run_babilong_eval)
  moreover have "seq_length_repr 17000 = ''16k''"
    by (simp add: seq_length_repr_def str_def str_nat.simps)
  ultimately show ?thesis by (simp add: script_star_run star_cmd_def)
qed

end
